theory Spec2Isabelle
  imports Complex_Main "HOL-Library.Log_Nat" "HOL-Library.Char_ord" "HOL-Library.List_Lexorder"
    "HOL-Library.Multiset"
begin

section \<open>Python values shared by both scripts\<close>

text \<open>
  The exceptions the two scripts can raise in the parts modelled here: \<open>ValueError\<close>
  (the label encoder on an unknown label, \<open>pd.concat\<close> of no frames, \<open>idxmin\<close>,
  \<open>idxmax\<close> and \<open>np.argmax\<close> of an empty sequence) and \<open>IndexError\<close> (a list index
  out of range). A computation returns \<open>Inl\<close> of the exception or \<open>Inr\<close> of its value.
\<close>

datatype py_error = ValueError | IndexError

subsection \<open>float64 arithmetic\<close>

text \<open>
  Python's \<open>float\<close> and numpy's \<open>float64\<close> are IEEE 754 binary64 numbers. A finite
  binary64 number is a rational \<open>m * 2 ^ e\<close> with \<open>\<bar>m\<bar> < 2 ^ 53\<close> and \<open>- 1074 \<le> e\<close>;
  every arithmetic operation returns the exact result rounded to the nearest such
  number, ties to the even significand. \<open>rd\<close> is that rounding. Infinities and NaN
  are not represented: the model covers runs whose values stay finite, which for
  \<open>rd\<close> means results below \<open>2 ^ 1024\<close> in magnitude.
\<close>

definition pow2 :: "int \<Rightarrow> rat" where
  "pow2 e = (if 0 \<le> e then 2 ^ nat e else 1 / 2 ^ nat (- e))"

definition ilog2 :: "rat \<Rightarrow> int" where
  \<comment> \<open>\<open>\<lfloor>log\<^sub>2 x\<rfloor>\<close> for \<open>0 < x\<close>\<close>
  "ilog2 x = (if 1 \<le> x then bitlen \<lfloor>x\<rfloor> - 1 else - bitlen (\<lceil>1 / x\<rceil> - 1))"

definition round_half_even :: "rat \<Rightarrow> int" where
  "round_half_even q =
     (let f = \<lfloor>q\<rfloor>; r = q - of_int f
      in if r < 1 / 2 then f
         else if 1 / 2 < r then f + 1
         else if even f then f else f + 1)"

definition rd :: "rat \<Rightarrow> rat" where
  "rd x =
     (if x = 0 then 0
      else let e = max (ilog2 \<bar>x\<bar> - 52) (- 1074);
               m = round_half_even (\<bar>x\<bar> / pow2 e)
           in sgn x * of_int m * pow2 e)"

definition fmul :: "rat \<Rightarrow> rat \<Rightarrow> rat" where
  "fmul a b = rd (a * b)"

definition fdiv :: "rat \<Rightarrow> rat \<Rightarrow> rat" where
  "fdiv a b = rd (a / b)"

definition fadd :: "rat \<Rightarrow> rat \<Rightarrow> rat" where
  "fadd a b = rd (a + b)"

definition fsub :: "rat \<Rightarrow> rat \<Rightarrow> rat" where
  "fsub a b = rd (a - b)"

definition f64_of_int :: "int \<Rightarrow> rat" where
  \<comment> \<open>a Python \<open>int\<close> operand of a float64 operation is converted first\<close>
  "f64_of_int n = rd (of_int n)"


section \<open>The energy forecast: \<open>app.py\<close>\<close>

subsection \<open>Constants and loaded artifacts\<close>

text \<open>A decimal literal denotes the float64 nearest to it.\<close>

definition CO2_FACTOR :: rat where
  "CO2_FACTOR = rd (475 / 1000)"

definition TARIFF_DAY :: rat where
  "TARIFF_DAY = rd (15 / 100)"

definition TARIFF_NIGHT :: rat where
  "TARIFF_NIGHT = rd (9 / 100)"

text \<open>
  The pickled artifacts are inputs of the model: \<open>reg_model\<close> is the regression
  model's \<open>predict\<close> on one feature row \<open>(hour, day, weekday, node_encoded)\<close>, and
  \<open>le_classes\<close> is the label encoder's \<open>classes_\<close>. (\<open>clf_model\<close> is loaded and
  never used.)
\<close>

record models =
  reg_model :: "int \<Rightarrow> int \<Rightarrow> int \<Rightarrow> int \<Rightarrow> rat"
  le_classes :: "string list"

fun index_of :: "'a \<Rightarrow> 'a list \<Rightarrow> nat option" where
  "index_of x [] = None"
| "index_of x (y # ys) =
     (if x = y then Some 0
      else case index_of x ys of None \<Rightarrow> None | Some i \<Rightarrow> Some (Suc i))"

definition le_transform :: "string list \<Rightarrow> string \<Rightarrow> py_error + int" where
  \<comment> \<open>\<open>le.transform([device])[0]\<close>: the position of the label in \<open>classes_\<close>\<close>
  "le_transform classes device =
     (case index_of device classes of
        None \<Rightarrow> Inl ValueError
      | Some i \<Rightarrow> Inr (int i))"

subsection \<open>Timestamps\<close>

text \<open>
  A date is its day number, counted from 1970-01-01; a timestamp of the hourly range
  is its hour number, counted from 1970-01-01 00:00. \<open>start_date\<close> is a date, so the
  range starts at midnight.
\<close>

definition date_range :: "int \<Rightarrow> nat \<Rightarrow> int list" where
  \<comment> \<open>\<open>pd.date_range(start=start_date, periods=periods, freq="h")\<close>\<close>
  "date_range start_date periods = map (\<lambda>i. 24 * start_date + int i) [0..<periods]"

definition ts_hour :: "int \<Rightarrow> int" where
  "ts_hour t = t mod 24"

definition ts_date :: "int \<Rightarrow> int" where
  "ts_date t = t div 24"

definition day_of_month :: "int \<Rightarrow> int" where
  \<comment> \<open>the day of the month of a day number, in the proleptic Gregorian calendar\<close>
  "day_of_month n =
     (let doe = (n + 719468) mod 146097;
          yoe = (doe - doe div 1460 + doe div 36524 - doe div 146096) div 365;
          doy = doe - (365 * yoe + yoe div 4 - yoe div 100);
          mp = (5 * doy + 2) div 153
      in doy - (153 * mp + 2) div 5 + 1)"

definition ts_day :: "int \<Rightarrow> int" where
  "ts_day t = day_of_month (ts_date t)"

definition ts_weekday :: "int \<Rightarrow> int" where
  \<comment> \<open>Monday is 0; 1970-01-01 was a Thursday\<close>
  "ts_weekday t = (ts_date t + 3) mod 7"

subsection \<open>The per-appliance frame\<close>

record row =
  hour :: int
  day :: int
  weekday :: int
  node_encoded :: int
  timestamp :: int
  Watts :: rat
  Energy_kWh :: rat
  CO2_kg :: rat
  Cost :: rat
  Appliance :: string

definition tariff :: "int \<Rightarrow> rat" where
  \<comment> \<open>\<open>TARIFF_NIGHT if (r["hour"] >= 22 or r["hour"] < 6) else TARIFF_DAY\<close>\<close>
  "tariff h = (if h \<ge> 22 \<or> h < 6 then TARIFF_NIGHT else TARIFF_DAY)"

text \<open>
  The column expressions of the loop body work element by element, so the frame is
  built row by row: the features of the timestamp, the predicted watts, and the three
  derived columns.
\<close>

definition frame_row :: "models \<Rightarrow> int \<Rightarrow> string \<Rightarrow> int \<Rightarrow> int \<Rightarrow> row" where
  "frame_row m duration device dev_id t =
     (let watts = reg_model m (ts_hour t) (ts_day t) (ts_weekday t) dev_id;
          energy = fdiv (fmul watts (f64_of_int duration)) (f64_of_int 1000);
          co2 = fmul energy CO2_FACTOR;
          cost = fmul energy (tariff (ts_hour t))
      in \<lparr>hour = ts_hour t, day = ts_day t, weekday = ts_weekday t,
          node_encoded = dev_id, timestamp = t, Watts = watts,
          Energy_kWh = energy, CO2_kg = co2, Cost = cost, Appliance = device\<rparr>)"

definition device_frame :: "models \<Rightarrow> int \<Rightarrow> int list \<Rightarrow> string \<Rightarrow> int \<Rightarrow> row list" where
  "device_frame m duration future device dev_id =
     map (frame_row m duration device dev_id) future"

fun forecast_devices ::
  "models \<Rightarrow> int \<Rightarrow> int list \<Rightarrow> string list \<Rightarrow> py_error + row list list" where
  "forecast_devices m duration future [] = Inr []"
| "forecast_devices m duration future (device # rest) =
     (case le_transform (le_classes m) device of
        Inl e \<Rightarrow> Inl e
      | Inr dev_id \<Rightarrow>
          (case forecast_devices m duration future rest of
             Inl e \<Rightarrow> Inl e
           | Inr results \<Rightarrow>
               Inr (device_frame m duration future device dev_id # results)))"

definition pd_concat :: "row list list \<Rightarrow> py_error + row list" where
  \<comment> \<open>\<open>pd.concat\<close> raises on an empty list of frames\<close>
  "pd_concat results = (if results = [] then Inl ValueError else Inr (concat results))"

subsection \<open>Aggregation\<close>

text \<open>
  \<open>groupby(key)[["Energy_kWh","CO2_kg","Cost_$"]].sum()\<close> is the library's grouped
  sum. For float64 columns it is a compensated (Kahan) summation: every group keeps,
  for each column, a running sum \<open>sumx\<close> and a \<open>compensation\<close>, both starting at
  zero, and one pass over the rows updates the accumulators of the row's group by
  \<^verbatim>\<open>y = val - compensation; t = sumx + y; compensation = t - sumx - y; sumx = t\<close>
  with every operation in float64. The result lists the groups in the order of their
  keys, with the running sums as values.
\<close>

type_synonym kahan = "rat \<times> rat"

definition kahan_add :: "kahan \<Rightarrow> rat \<Rightarrow> kahan" where
  \<comment> \<open>one update of the pair \<open>(sumx, compensation)\<close>\<close>
  "kahan_add sc val =
     (let y = fsub val (snd sc);
          t = fadd (fst sc) y
      in (t, fsub (fsub t (fst sc)) y))"

definition group_sum :: "rat list \<Rightarrow> rat" where
  \<comment> \<open>the grouped sum of the values of one group and column, in row order\<close>
  "group_sum xs = fst (foldl kahan_add (0, 0) xs)"

record accs =
  Energy_acc :: kahan
  CO2_acc :: kahan
  Cost_acc :: kahan

definition zero_accs :: accs where
  "zero_accs = \<lparr>Energy_acc = (0, 0), CO2_acc = (0, 0), Cost_acc = (0, 0)\<rparr>"

definition add_row :: "accs \<Rightarrow> row \<Rightarrow> accs" where
  "add_row a r =
     \<lparr>Energy_acc = kahan_add (Energy_acc a) (Energy_kWh r),
      CO2_acc = kahan_add (CO2_acc a) (CO2_kg r),
      Cost_acc = kahan_add (Cost_acc a) (Cost r)\<rparr>"

record agg =
  Energy_sum :: rat
  CO2_sum :: rat
  Cost_sum :: rat

definition sums_of :: "accs \<Rightarrow> agg" where
  "sums_of a =
     \<lparr>Energy_sum = fst (Energy_acc a), CO2_sum = fst (CO2_acc a),
      Cost_sum = fst (Cost_acc a)\<rparr>"

fun group_add :: "'k \<Rightarrow> row \<Rightarrow> ('k \<times> accs) list \<Rightarrow> ('k \<times> accs) list" where
  "group_add k r [] = [(k, add_row zero_accs r)]"
| "group_add k r ((k', a) # gs) =
     (if k = k' then (k', add_row a r) # gs else (k', a) # group_add k r gs)"

definition groupby_sum :: "(row \<Rightarrow> 'k::linorder) \<Rightarrow> row list \<Rightarrow> ('k \<times> agg) list" where
  "groupby_sum key rows =
     sort_key fst (map (\<lambda>(k, a). (k, sums_of a))
       (foldl (\<lambda>gs r. group_add (key r) r gs) [] rows))"

definition column :: "(agg \<Rightarrow> rat) \<Rightarrow> ('k \<times> agg) list \<Rightarrow> ('k \<times> rat) list" where
  \<comment> \<open>one column of an aggregate, as a series indexed by the group keys\<close>
  "column c agg = map (\<lambda>(k, s). (k, c s)) agg"

text \<open>
  \<open>idxmin\<close> and \<open>idxmax\<close> return the index label of the first occurrence of the
  smallest, respectively largest, value, and raise on an empty series.
\<close>

fun idxmin :: "('k \<times> rat) list \<Rightarrow> py_error + 'k" where
  "idxmin [] = Inl ValueError"
| "idxmin (kv # kvs) =
     Inr (fst (foldl (\<lambda>best kv'. if snd kv' < snd best then kv' else best) kv kvs))"

fun idxmax :: "('k \<times> rat) list \<Rightarrow> py_error + 'k" where
  "idxmax [] = Inl ValueError"
| "idxmax (kv # kvs) =
     Inr (fst (foldl (\<lambda>best kv'. if snd best < snd kv' then kv' else best) kv kvs))"

subsection \<open>The handler of the Run Forecast button\<close>

text \<open>
  The handler computes the frames, the two aggregates and the four reported labels.
  The grand totals, the formatted text and the charts only display these values and
  are left out.
\<close>

record forecast =
  final :: "row list"
  summary :: "(string \<times> agg) list"
  daily_summary :: "(int \<times> agg) list"
  best_day :: int
  worst_day :: int
  top_cost_appliance :: string
  top_co2_appliance :: string

definition run_forecast ::
  "models \<Rightarrow> string list \<Rightarrow> nat \<Rightarrow> int \<Rightarrow> int \<Rightarrow> py_error + forecast" where
  "run_forecast m selected_devices days duration start_date =
     (let hours_ahead = 24 * days;
          future = date_range start_date hours_ahead
      in case forecast_devices m duration future selected_devices of
           Inl e \<Rightarrow> Inl e
         | Inr results \<Rightarrow>
      (case pd_concat results of
           Inl e \<Rightarrow> Inl e
         | Inr rows \<Rightarrow>
      (let summ = groupby_sum Appliance rows;
           daily = groupby_sum (\<lambda>r. ts_date (timestamp r)) rows
       in case idxmin (column Cost_sum daily) of
            Inl e \<Rightarrow> Inl e
          | Inr best \<Rightarrow>
       (case idxmax (column Cost_sum daily) of
            Inl e \<Rightarrow> Inl e
          | Inr worst \<Rightarrow>
       (case idxmax (column Cost_sum summ) of
            Inl e \<Rightarrow> Inl e
          | Inr top_cost \<Rightarrow>
       (case idxmax (column CO2_sum summ) of
            Inl e \<Rightarrow> Inl e
          | Inr top_co2 \<Rightarrow>
            Inr \<lparr>final = rows, summary = summ,
                 daily_summary = daily, best_day = best, worst_day = worst,
                 top_cost_appliance = top_cost, top_co2_appliance = top_co2\<rparr>))))))"

section \<open>The image classifier page: \<open>Streamlit demo/main.py\<close>\<close>

text \<open>
  The trained network is an input of the model: \<open>predict\<close> maps the uploaded image
  to the class-probability vector that \<open>model.predict\<close> returns for it. Only the
  order of the probabilities matters, so they are taken as rationals.
\<close>

fun argmax_from :: "nat \<Rightarrow> rat \<Rightarrow> nat \<Rightarrow> rat list \<Rightarrow> nat" where
  "argmax_from best v i [] = best"
| "argmax_from best v i (x # xs) =
     (if v < x then argmax_from i x (Suc i) xs else argmax_from best v (Suc i) xs)"

definition np_argmax :: "rat list \<Rightarrow> py_error + nat" where
  \<comment> \<open>the index of the first largest element; an empty array raises\<close>
  "np_argmax xs = (case xs of [] \<Rightarrow> Inl ValueError | x # xs' \<Rightarrow> Inr (argmax_from 0 x 1 xs'))"

definition model_prediction :: "('img \<Rightarrow> rat list) \<Rightarrow> 'img \<Rightarrow> py_error + nat" where
  "model_prediction predict test_image = np_argmax (predict test_image)"

definition newline :: char where
  "newline = CHR 0x0A"

text \<open>
  \<open>f.readlines()\<close> on the text of the file (after the newline translation of text
  mode): the lines in order, each with its terminating newline; the last line has
  none when the file does not end in one.
\<close>

fun readlines :: "string \<Rightarrow> string list" where
  "readlines [] = []"
| "readlines (c # cs) =
     (if c = newline then [c] # readlines cs
      else case readlines cs of
             [] \<Rightarrow> [[c]]
           | l # ls \<Rightarrow> (c # l) # ls)"

definition read_labels :: "string \<Rightarrow> string list" where
  \<comment> \<open>\<open>for i in content: label.append(i[:-1])\<close>\<close>
  "read_labels text = map butlast (readlines text)"

definition list_get :: "'a list \<Rightarrow> nat \<Rightarrow> py_error + 'a" where
  \<comment> \<open>indexing a list with a non-negative index\<close>
  "list_get xs i = (if i < length xs then Inr (xs ! i) else Inl IndexError)"

definition predict_label :: "('img \<Rightarrow> rat list) \<Rightarrow> string \<Rightarrow> 'img \<Rightarrow> py_error + string" where
  \<comment> \<open>the Predict button: the label that the success message shows\<close>
  "predict_label predict labels_txt test_image =
     (case model_prediction predict test_image of
        Inl e \<Rightarrow> Inl e
      | Inr result_index \<Rightarrow> list_get (read_labels labels_txt) result_index)"

definition line_text :: "string \<Rightarrow> string" where
  \<comment> \<open>a line of the file without its terminating newline\<close>
  "line_text l = (if l \<noteq> [] \<and> last l = newline then butlast l else l)"

section \<open>Quantities of the properties, and a sample run\<close>

text \<open>
  The rows of a calendar day (of every appliance), their summed cost, and the rows
  of one appliance, as the properties below speak of them.
\<close>

definition day_rows :: "row list \<Rightarrow> int \<Rightarrow> row list" where
  "day_rows rows d = filter (\<lambda>r. ts_date (timestamp r) = d) rows"

definition day_cost :: "row list \<Rightarrow> int \<Rightarrow> rat" where
  "day_cost rows d = group_sum (map Cost (day_rows rows d))"

text \<open>
  A list of values is exactly summable when every value and every partial sum, taken
  from the left, is a float64: then no addition rounds.
\<close>

fun exact_from :: "rat \<Rightarrow> rat list \<Rightarrow> bool" where
  "exact_from s [] = True"
| "exact_from s (x # xs) = (rd x = x \<and> rd (s + x) = s + x \<and> exact_from (s + x) xs)"

definition exactly_summable :: "rat list \<Rightarrow> bool" where
  "exactly_summable xs = exact_from 0 xs"

definition appliance_rows :: "row list \<Rightarrow> string \<Rightarrow> row list" where
  "appliance_rows rows a = filter (\<lambda>r. Appliance r = a) rows"

text \<open>
  A sample run: two appliances, the first drawing 1000 watts on Saturdays at 23:00
  and the second 900 watts on Saturdays at 12:00, forecast from Saturday 2022-09-24
  (day number 19259). A sample label file of two lines, the second without a
  trailing newline, and two sample classifier outputs.
\<close>

definition demo :: models where
  "demo = \<lparr>reg_model = (\<lambda>h d w n. if n = 0 then (if h = 23 \<and> w = 5 then 1000 else 0)
                                     else (if h = 12 \<and> w = 5 then 900 else 0)),
           le_classes = [''Fridge'', ''TV'']\<rparr>"

definition sample_labels :: string where
  "sample_labels = ''apple'' @ [newline] @ ''banana''"

definition sample_predict :: "unit \<Rightarrow> rat list" where
  "sample_predict img = [1 / 10, 9 / 10]"

definition sample_predict3 :: "unit \<Rightarrow> rat list" where
  "sample_predict3 img = [1 / 10, 2 / 10, 7 / 10]"

section \<open>Properties of the aggregation\<close>

lemma group_add_keys: "fst ` set (group_add k r gs) = insert k (fst ` set gs)"
  by (induction gs) force+

lemma group_add_distinct:
  "distinct (map fst gs) \<Longrightarrow> distinct (map fst (group_add k r gs))"
proof (induction gs)
  case Nil
  then show ?case by simp
next
  case (Cons g gs)
  obtain k' s where g: "g = (k', s)" by (cases g)
  from Cons have "distinct (map fst (group_add k r gs))" by simp
  moreover have "k \<noteq> k' \<Longrightarrow> k' \<notin> fst ` set (group_add k r gs)"
    using Cons.prems g unfolding group_add_keys by auto
  ultimately show ?case using Cons.prems g by auto
qed

lemma map_of_group_add:
  "map_of (group_add k r gs) =
     (map_of gs)(k \<mapsto> add_row (case map_of gs k of None \<Rightarrow> zero_accs | Some s \<Rightarrow> s) r)"
  by (induction gs) (auto simp: fun_eq_iff)

lemma map_of_foldl_groups:
  "map_of (foldl (\<lambda>gs r. group_add (key r) r gs) gs rows) k =
     (if k \<in> key ` set rows \<or> k \<in> dom (map_of gs)
      then Some (foldl add_row (case map_of gs k of None \<Rightarrow> zero_accs | Some s \<Rightarrow> s)
                   (filter (\<lambda>r. key r = k) rows))
      else None)"
proof (induction rows arbitrary: gs)
  case Nil
  then show ?case by (auto split: option.splits)
next
  case (Cons r rows)
  show ?case
    by (simp add: Cons.IH map_of_group_add) (auto simp: dom_def split: option.splits)
qed

lemma distinct_foldl_groups:
  "distinct (map fst gs) \<Longrightarrow>
   distinct (map fst (foldl (\<lambda>gs r. group_add (key r) r gs) gs rows))"
  by (induction rows arbitrary: gs) (simp_all add: group_add_distinct)

lemma distinct_fst_sort_key:
  "distinct (map fst (sort_key fst xs)) = distinct (map fst xs)"
proof -
  have "mset (map fst (sort_key fst xs)) = mset (map fst xs)"
    by simp
  then show ?thesis
    using mset_eq_imp_distinct_iff by blast
qed

lemma map_of_sort_key:
  "distinct (map fst xs) \<Longrightarrow> map_of (sort_key fst xs) = map_of xs"
  by (simp add: map_of_inject_set distinct_fst_sort_key)

lemma foldl_best_min:
  fixes kv :: "'k \<times> rat"
  defines "f \<equiv> (\<lambda>best kv'. if snd kv' < snd best then kv' else best)"
  shows "foldl f kv kvs \<in> set (kv # kvs) \<and> (\<forall>x \<in> set (kv # kvs). snd (foldl f kv kvs) \<le> snd x)"
proof (induction kvs arbitrary: kv)
  case Nil
  then show ?case by simp
next
  case (Cons a kvs)
  have "snd (f kv a) \<le> snd kv" "snd (f kv a) \<le> snd a" "f kv a = kv \<or> f kv a = a"
    by (auto simp: f_def)
  with Cons[of "f kv a"] show ?case by fastforce
qed

lemma foldl_best_max:
  fixes kv :: "'k \<times> rat"
  defines "f \<equiv> (\<lambda>best kv'. if snd best < snd kv' then kv' else best)"
  shows "foldl f kv kvs \<in> set (kv # kvs) \<and> (\<forall>x \<in> set (kv # kvs). snd x \<le> snd (foldl f kv kvs))"
proof (induction kvs arbitrary: kv)
  case Nil
  then show ?case by simp
next
  case (Cons a kvs)
  have "snd kv \<le> snd (f kv a)" "snd a \<le> snd (f kv a)" "f kv a = kv \<or> f kv a = a"
    by (auto simp: f_def)
  with Cons[of "f kv a"] show ?case by fastforce
qed

lemma idxmin_Inr:
  assumes "idxmin kvs = Inr k"
  shows "\<exists>v. (k, v) \<in> set kvs \<and> (\<forall>x \<in> set kvs. v \<le> snd x)"
proof (cases kvs)
  case Nil
  with assms show ?thesis by simp
next
  case (Cons kv rest)
  let ?b = "foldl (\<lambda>best kv'. if snd kv' < snd best then kv' else best) kv rest"
  from assms Cons have k: "k = fst ?b" by simp
  have "?b \<in> set kvs" "\<forall>x \<in> set kvs. snd ?b \<le> snd x"
    using foldl_best_min[of kv rest] Cons by simp_all
  then show ?thesis unfolding k by (intro exI[of _ "snd ?b"]) simp
qed

lemma idxmax_Inr:
  assumes "idxmax kvs = Inr k"
  shows "\<exists>v. (k, v) \<in> set kvs \<and> (\<forall>x \<in> set kvs. snd x \<le> v)"
proof (cases kvs)
  case Nil
  with assms show ?thesis by simp
next
  case (Cons kv rest)
  let ?b = "foldl (\<lambda>best kv'. if snd best < snd kv' then kv' else best) kv rest"
  from assms Cons have k: "k = fst ?b" by simp
  have "?b \<in> set kvs" "\<forall>x \<in> set kvs. snd x \<le> snd ?b"
    using foldl_best_max[of kv rest] Cons by simp_all
  then show ?thesis unfolding k by (intro exI[of _ "snd ?b"]) simp
qed

lemma idxmin_nonempty: "kvs \<noteq> [] \<Longrightarrow> \<exists>k. idxmin kvs = Inr k"
  by (cases kvs) simp_all

lemma idxmax_nonempty: "kvs \<noteq> [] \<Longrightarrow> \<exists>k. idxmax kvs = Inr k"
  by (cases kvs) simp_all

lemma keys_sums_of: "map fst (map (\<lambda>(k, a). (k, sums_of a)) gs) = map fst gs"
  by (induction gs) auto

lemma map_of_sums_of:
  "map_of (map (\<lambda>(k, a). (k, sums_of a)) gs) k = map_option sums_of (map_of gs k)"
  by (induction gs) auto

lemma groupby_sum_distinct: "distinct (map fst (groupby_sum key rows))"
  unfolding groupby_sum_def distinct_fst_sort_key keys_sums_of
  by (rule distinct_foldl_groups) simp

lemma groupby_sum_sorted: "sorted (map fst (groupby_sum key rows))"
  unfolding groupby_sum_def by simp

lemma map_of_groupby_sum:
  "map_of (groupby_sum key rows) k =
     (if k \<in> key ` set rows
      then Some (sums_of (foldl add_row zero_accs (filter (\<lambda>r. key r = k) rows)))
      else None)"
proof -
  let ?gs = "foldl (\<lambda>gs r. group_add (key r) r gs) [] rows"
  have "distinct (map fst (map (\<lambda>(k, a). (k, sums_of a)) ?gs))"
    unfolding keys_sums_of by (rule distinct_foldl_groups) simp
  then have "map_of (groupby_sum key rows) = map_of (map (\<lambda>(k, a). (k, sums_of a)) ?gs)"
    unfolding groupby_sum_def by (rule map_of_sort_key)
  then show ?thesis by (simp add: map_of_sums_of map_of_foldl_groups)
qed

lemma groupby_sum_set:
  "(k, s) \<in> set (groupby_sum key rows) \<longleftrightarrow>
     k \<in> key ` set rows \<and>
     s = sums_of (foldl add_row zero_accs (filter (\<lambda>r. key r = k) rows))"
proof -
  have "(k, s) \<in> set (groupby_sum key rows) \<longleftrightarrow> map_of (groupby_sum key rows) k = Some s"
    using groupby_sum_distinct by (metis map_of_eq_Some_iff)
  then show ?thesis by (auto simp: map_of_groupby_sum)
qed

lemma foldl_add_row_Energy:
  "Energy_acc (foldl add_row a rows) = foldl kahan_add (Energy_acc a) (map Energy_kWh rows)"
  by (induction rows arbitrary: a) (simp_all add: add_row_def)

lemma foldl_add_row_CO2:
  "CO2_acc (foldl add_row a rows) = foldl kahan_add (CO2_acc a) (map CO2_kg rows)"
  by (induction rows arbitrary: a) (simp_all add: add_row_def)

lemma foldl_add_row_Cost:
  "Cost_acc (foldl add_row a rows) = foldl kahan_add (Cost_acc a) (map Cost rows)"
  by (induction rows arbitrary: a) (simp_all add: add_row_def)

lemma group_totals:
  "sums_of (foldl add_row zero_accs rows) =
     \<lparr>Energy_sum = group_sum (map Energy_kWh rows), CO2_sum = group_sum (map CO2_kg rows),
      Cost_sum = group_sum (map Cost rows)\<rparr>"
  by (simp add: sums_of_def group_sum_def foldl_add_row_Energy foldl_add_row_CO2
      foldl_add_row_Cost zero_accs_def)

lemma column_set:
  "(k, v) \<in> set (column c agg) \<longleftrightarrow> (\<exists>s. (k, s) \<in> set agg \<and> v = c s)"
  unfolding column_def by auto

section \<open>Properties of a forecast run\<close>

lemma index_of_None: "index_of x xs = None \<longleftrightarrow> x \<notin> set xs"
  by (induction xs) (auto split: option.splits)

lemma le_transform_eq:
  "le_transform classes device =
     (if device \<in> set classes then Inr (int (the (index_of device classes)))
      else Inl ValueError)"
  unfolding le_transform_def using index_of_None[of device classes]
  by (cases "index_of device classes") auto

lemma forecast_devices_eq:
  "forecast_devices m duration future sel =
     (if set sel \<subseteq> set (le_classes m)
      then Inr (map (\<lambda>device. device_frame m duration future device
                      (int (the (index_of device (le_classes m))))) sel)
      else Inl ValueError)"
  by (induction sel) (simp_all add: le_transform_eq)

lemma forecast_devices_Inr:
  "forecast_devices m duration future sel = Inr results \<longleftrightarrow>
   set sel \<subseteq> set (le_classes m) \<and>
   results = map (\<lambda>device. device_frame m duration future device
                    (int (the (index_of device (le_classes m))))) sel"
  by (auto simp: forecast_devices_eq)

lemma frame_rows:
  assumes "forecast_devices m duration future sel = Inr results"
    and "r \<in> set (concat results)"
  shows "\<exists>device dev_id t. device \<in> set sel \<and> t \<in> set future \<and>
           le_transform (le_classes m) device = Inr dev_id \<and>
           r = frame_row m duration device dev_id t"
  using assms unfolding forecast_devices_Inr
  by (auto simp: device_frame_def le_transform_eq)

lemma run_forecast_Inr:
  assumes "run_forecast m sel days duration start_date = Inr out"
  shows "\<exists>results.
           forecast_devices m duration (date_range start_date (24 * days)) sel = Inr results \<and>
           results \<noteq> [] \<and> final out = concat results \<and>
           summary out = groupby_sum Appliance (final out) \<and>
           daily_summary out = groupby_sum (\<lambda>r. ts_date (timestamp r)) (final out) \<and>
           idxmin (column Cost_sum (daily_summary out)) = Inr (best_day out) \<and>
           idxmax (column Cost_sum (daily_summary out)) = Inr (worst_day out) \<and>
           idxmax (column Cost_sum (summary out)) = Inr (top_cost_appliance out) \<and>
           idxmax (column CO2_sum (summary out)) = Inr (top_co2_appliance out)"
  using assms unfolding run_forecast_def Let_def pd_concat_def
  by (auto split: sum.splits if_splits)

lemma ts_hour_range: "0 \<le> ts_hour t \<and> ts_hour t < 24"
  by (simp add: ts_hour_def)

lemma date_range_dates:
  "ts_date ` set (date_range start_date (24 * days)) = {start_date ..< start_date + int days}"
proof (intro equalityI subsetI)
  fix d assume "d \<in> ts_date ` set (date_range start_date (24 * days))"
  then obtain i where i: "i < 24 * days" and d: "d = (24 * start_date + int i) div 24"
    by (auto simp: date_range_def ts_date_def)
  have "d = start_date + int i div 24" unfolding d by simp
  moreover have "int i div 24 < int days" using i by simp
  ultimately show "d \<in> {start_date ..< start_date + int days}" by simp
next
  fix d assume d: "d \<in> {start_date ..< start_date + int days}"
  define i where "i = 24 * nat (d - start_date)"
  have "nat (d - start_date) < days" using d by (simp; linarith)
  then have "i < 24 * days" by (simp add: i_def)
  moreover have "(24 * start_date + int i) div 24 = d" using d by (simp add: i_def)
  ultimately show "d \<in> ts_date ` set (date_range start_date (24 * days))"
    by (force simp: date_range_def ts_date_def)
qed

lemma run_forecast_total:
  assumes "sel \<noteq> []" and "set sel \<subseteq> set (le_classes m)" and "0 < days"
  shows "\<exists>out. run_forecast m sel days duration start_date = Inr out"
proof -
  let ?future = "date_range start_date (24 * days)"
  let ?results = "map (\<lambda>device. device_frame m duration ?future device
                    (int (the (index_of device (le_classes m))))) sel"
  let ?rows = "concat ?results"
  have fd: "forecast_devices m duration ?future sel = Inr ?results"
    using assms(2) by (simp add: forecast_devices_eq)
  have pc: "pd_concat ?results = Inr ?rows"
    using assms(1) by (simp add: pd_concat_def)
  have "?future \<noteq> []" using assms(3) by (simp add: date_range_def)
  then have "?rows \<noteq> []" using assms(1) by (cases sel) (simp_all add: device_frame_def)
  then obtain r where r: "r \<in> set ?rows" by (cases ?rows) auto
  have ne: "groupby_sum key ?rows \<noteq> []" for key :: "row \<Rightarrow> 'k::linorder"
  proof -
    have "(key r, sums_of (foldl add_row zero_accs (filter (\<lambda>r'. key r' = key r) ?rows)))
            \<in> set (groupby_sum key ?rows)"
      unfolding groupby_sum_set using r by blast
    then show ?thesis by auto
  qed
  have cne: "column c (groupby_sum key ?rows) \<noteq> []" for c and key :: "row \<Rightarrow> 'k::linorder"
    using ne[of key] by (simp add: column_def)
  obtain best where best: "idxmin (column Cost_sum (groupby_sum (\<lambda>r. ts_date (timestamp r)) ?rows)) = Inr best"
    using idxmin_nonempty[OF cne] by blast
  obtain worst where worst: "idxmax (column Cost_sum (groupby_sum (\<lambda>r. ts_date (timestamp r)) ?rows)) = Inr worst"
    using idxmax_nonempty[OF cne] by blast
  obtain tc where tc: "idxmax (column Cost_sum (groupby_sum Appliance ?rows)) = Inr tc"
    using idxmax_nonempty[OF cne] by blast
  obtain tz where tz: "idxmax (column CO2_sum (groupby_sum Appliance ?rows)) = Inr tz"
    using idxmax_nonempty[OF cne] by blast
  show ?thesis
    unfolding run_forecast_def Let_def by (simp add: fd pc best worst tc tz)
qed

section \<open>The derived columns\<close>

lemma tariff_values:
  "TARIFF_NIGHT = 3242591731706757 / 36028797018963968"
  "TARIFF_DAY = 5404319552844595 / 36028797018963968"
  by code_simp+

lemma f64_1000: "f64_of_int 1000 = 1000"
  by code_simp

lemma final_rows:
  assumes "run_forecast m sel days duration start_date = Inr out" and "r \<in> set (final out)"
  shows "\<exists>device t. device \<in> set sel \<and> device \<in> set (le_classes m) \<and>
           t \<in> set (date_range start_date (24 * days)) \<and>
           r = frame_row m duration device (int (the (index_of device (le_classes m)))) t"
proof -
  from run_forecast_Inr[OF assms(1)] obtain results where
    fd: "forecast_devices m duration (date_range start_date (24 * days)) sel = Inr results"
    and fin: "final out = concat results" by blast
  from frame_rows[OF fd] assms(2) fin show ?thesis
    by (fastforce simp: le_transform_eq split: if_splits)
qed

lemma final_rows_complete:
  assumes "run_forecast m sel days duration start_date = Inr out"
    and "device \<in> set sel" and "i < 24 * days"
  shows "frame_row m duration device (int (the (index_of device (le_classes m))))
           (24 * start_date + int i) \<in> set (final out)"
proof -
  from run_forecast_Inr[OF assms(1)] obtain results where
    fd: "forecast_devices m duration (date_range start_date (24 * days)) sel = Inr results"
    and fin: "final out = concat results" by blast
  have "24 * start_date + int i \<in> set (date_range start_date (24 * days))"
    using assms(3) by (auto simp: date_range_def)
  then show ?thesis
    using fd assms(2) unfolding fin forecast_devices_Inr device_frame_def by auto
qed

lemma demo_run: "\<exists>out. run_forecast demo [''Fridge'', ''TV''] 3 3 19259 = Inr out"
  by (rule run_forecast_total) (simp_all add: demo_def)

text \<open>
  Claim C1. The cost of every row of a forecast is its energy times the tariff of the
  row's hour; the hour lies in \<open>[0, 24)\<close>, the tariff is the night rate exactly for
  the hours in \<open>[22, 24)\<close> and \<open>[0, 6)\<close>, and the day rate exactly for the hours in
  \<open>[6, 22)\<close>.
\<close>

theorem tariff_by_hour:
  assumes "run_forecast m sel days duration start_date = Inr out" and "r \<in> set (final out)"
  shows "0 \<le> hour r \<and> hour r < 24 \<and>
         Cost r = fmul (Energy_kWh r) (tariff (hour r)) \<and>
         (tariff (hour r) = TARIFF_NIGHT \<longleftrightarrow>
            (22 \<le> hour r \<and> hour r < 24) \<or> (0 \<le> hour r \<and> hour r < 6)) \<and>
         (tariff (hour r) = TARIFF_DAY \<longleftrightarrow> 6 \<le> hour r \<and> hour r < 22)"
proof -
  from final_rows[OF assms] obtain device t where
    r: "r = frame_row m duration device (int (the (index_of device (le_classes m)))) t"
    by blast
  have h: "0 \<le> hour r \<and> hour r < 24"
    unfolding r frame_row_def Let_def by (simp add: ts_hour_def)
  have c: "Cost r = fmul (Energy_kWh r) (tariff (hour r))"
    unfolding r frame_row_def Let_def by simp
  have ne: "TARIFF_NIGHT \<noteq> TARIFF_DAY"
    unfolding tariff_values by simp
  from h c ne show ?thesis
    by (auto simp: tariff_def)
qed

theorem tariff_by_hour_witness:
  "\<exists>out r. run_forecast demo [''Fridge'', ''TV''] 3 3 19259 = Inr out \<and> r \<in> set (final out) \<and>
     hour r = 23 \<and> tariff (hour r) = TARIFF_NIGHT \<and>
     Cost r = fmul (Energy_kWh r) TARIFF_NIGHT"
proof -
  from demo_run obtain out where out: "run_forecast demo [''Fridge'', ''TV''] 3 3 19259 = Inr out"
    by blast
  let ?r = "frame_row demo 3 ''Fridge'' (int (the (index_of ''Fridge'' (le_classes demo))))
              (24 * 19259 + int 23)"
  have r: "?r \<in> set (final out)"
    by (rule final_rows_complete[OF out]) simp_all
  have h: "hour ?r = 23"
    by (simp add: frame_row_def Let_def ts_hour_def)
  from tariff_by_hour[OF out r] h
  have "tariff (hour ?r) = TARIFF_NIGHT \<and> Cost ?r = fmul (Energy_kWh ?r) TARIFF_NIGHT"
    by simp
  with out r h show ?thesis by blast
qed

lemma f64_of_int_slider:
  "f64_of_int 1 = 1" "f64_of_int 2 = 2" "f64_of_int 3 = 3" "f64_of_int 4 = 4"
  "f64_of_int 5 = 5" "f64_of_int 6 = 6" "f64_of_int 7 = 7" "f64_of_int 8 = 8"
  "f64_of_int 9 = 9" "f64_of_int 10 = 10" "f64_of_int 11 = 11" "f64_of_int 12 = 12"
  by code_simp+

lemma f64_of_int_duration:
  assumes "1 \<le> n" and "n \<le> 12"
  shows "f64_of_int n = of_int n"
proof (cases "n = 1")
  case True
  then show ?thesis by (simp add: f64_of_int_slider)
next
  case False
  have "list_all (\<lambda>k. f64_of_int k = of_int k) [2..12]"
    by (simp add: f64_of_int_slider)
  then have "\<forall>k \<in> {2..12}. f64_of_int k = of_int k"
    by (simp only: list_all_iff set_upto)
  moreover have "n \<in> {2..12}"
    using assms False by simp
  ultimately show ?thesis by (rule bspec)
qed

lemma CO2_FACTOR_value: "CO2_FACTOR = 4278419646001971 / 9007199254740992"
  by code_simp

text \<open>
  Claim C2. In every row of a forecast the watts are the regression model's prediction
  for the row's features, and the energy is the float64 value of
  \<open>(watts * duration) / 1000\<close>, where \<open>duration\<close> is the usage-hours input; for the
  slider's values 1 to 12 the conversion of \<open>duration\<close> to float64 is exact.
\<close>

theorem energy_conversion:
  assumes "run_forecast m sel days duration start_date = Inr out" and "r \<in> set (final out)"
  shows "Watts r = reg_model m (hour r) (day r) (weekday r) (node_encoded r) \<and>
         Energy_kWh r = fdiv (fmul (Watts r) (f64_of_int duration)) 1000 \<and>
         (1 \<le> duration \<and> duration \<le> 12 \<longrightarrow>
            Energy_kWh r = fdiv (fmul (Watts r) (of_int duration)) 1000)"
proof -
  from final_rows[OF assms] obtain device t where
    r: "r = frame_row m duration device (int (the (index_of device (le_classes m)))) t"
    by blast
  have w: "Watts r = reg_model m (hour r) (day r) (weekday r) (node_encoded r)"
    unfolding r frame_row_def Let_def by simp
  have e: "Energy_kWh r = fdiv (fmul (Watts r) (f64_of_int duration)) 1000"
    unfolding r frame_row_def Let_def by (simp add: f64_1000)
  from w e show ?thesis
    by (simp add: f64_of_int_duration)
qed

theorem energy_conversion_witness:
  "\<exists>out r. run_forecast demo [''Fridge'', ''TV''] 3 3 19259 = Inr out \<and> r \<in> set (final out) \<and>
     Watts r = 1000 \<and> (1::int) \<le> 3 \<and> (3::int) \<le> 12 \<and>
     Energy_kWh r = fdiv (fmul (Watts r) 3) 1000"
proof -
  from demo_run obtain out where out: "run_forecast demo [''Fridge'', ''TV''] 3 3 19259 = Inr out"
    by blast
  let ?r = "frame_row demo 3 ''Fridge'' (int (the (index_of ''Fridge'' (le_classes demo))))
              (24 * 19259 + int 23)"
  have r: "?r \<in> set (final out)"
    by (rule final_rows_complete[OF out]) simp_all
  have w: "Watts ?r = 1000"
    by (simp add: frame_row_def Let_def ts_hour_def ts_weekday_def ts_date_def demo_def)
  from energy_conversion[OF out r]
  have "(1::int) \<le> 3 \<and> (3::int) \<le> 12 \<longrightarrow>
          Energy_kWh ?r = fdiv (fmul (Watts ?r) (of_int 3)) 1000"
    by blast
  then have e: "Energy_kWh ?r = fdiv (fmul (Watts ?r) 3) 1000"
    by (simp only: of_int_numeral) simp
  show ?thesis
    by (intro exI[of _ out] exI[of _ ?r] conjI out r w e) simp_all
qed

text \<open>
  Claim C3. In every row of a forecast the emissions are the float64 product of the
  row's energy and the emission factor, the float64 nearest to 0.475.
\<close>

theorem co2_of_energy:
  assumes "run_forecast m sel days duration start_date = Inr out" and "r \<in> set (final out)"
  shows "CO2_kg r = fmul (Energy_kWh r) CO2_FACTOR \<and>
         CO2_FACTOR = rd (475 / 1000) \<and>
         \<bar>CO2_FACTOR - 475 / 1000\<bar> < 1 / 2 ^ 54"
proof -
  from final_rows[OF assms] obtain device t where
    r: "r = frame_row m duration device (int (the (index_of device (le_classes m)))) t"
    by blast
  have "CO2_kg r = fmul (Energy_kWh r) CO2_FACTOR"
    unfolding r frame_row_def Let_def by simp
  moreover have "\<bar>CO2_FACTOR - 475 / 1000\<bar> < 1 / 2 ^ 54"
    unfolding CO2_FACTOR_value by simp
  ultimately show ?thesis by (simp add: CO2_FACTOR_def)
qed

theorem co2_of_energy_witness:
  "\<exists>out r. run_forecast demo [''Fridge'', ''TV''] 3 3 19259 = Inr out \<and> r \<in> set (final out) \<and>
     CO2_kg r = fmul (Energy_kWh r) CO2_FACTOR"
proof -
  from demo_run obtain out where out: "run_forecast demo [''Fridge'', ''TV''] 3 3 19259 = Inr out"
    by blast
  let ?r = "frame_row demo 3 ''Fridge'' (int (the (index_of ''Fridge'' (le_classes demo))))
              (24 * 19259 + int 23)"
  have r: "?r \<in> set (final out)"
    by (rule final_rows_complete[OF out]) simp_all
  from co2_of_energy[OF out r] out r show ?thesis by blast
qed

section \<open>The rows of a run\<close>

lemma idxmax_column:
  assumes "idxmax (column c agg) = Inr k"
  shows "\<exists>s. (k, s) \<in> set agg \<and> (\<forall>x \<in> set agg. c (snd x) \<le> c s)"
proof -
  from idxmax_Inr[OF assms] obtain v where
    kv: "(k, v) \<in> set (column c agg)" and mx: "\<forall>x \<in> set (column c agg). snd x \<le> v"
    by blast
  from kv obtain s where s: "(k, s) \<in> set agg" "v = c s"
    unfolding column_set by blast
  have "c (snd x) \<le> c s" if "x \<in> set agg" for x
  proof -
    from that have "(fst x, c (snd x)) \<in> set (column c agg)"
      unfolding column_set by (intro exI[of _ "snd x"]) simp
    with mx s(2) show ?thesis by fastforce
  qed
  with s(1) show ?thesis by blast
qed

lemma idxmin_column:
  assumes "idxmin (column c agg) = Inr k"
  shows "\<exists>s. (k, s) \<in> set agg \<and> (\<forall>x \<in> set agg. c s \<le> c (snd x))"
proof -
  from idxmin_Inr[OF assms] obtain v where
    kv: "(k, v) \<in> set (column c agg)" and mn: "\<forall>x \<in> set (column c agg). v \<le> snd x"
    by blast
  from kv obtain s where s: "(k, s) \<in> set agg" "v = c s"
    unfolding column_set by blast
  have "c s \<le> c (snd x)" if "x \<in> set agg" for x
  proof -
    from that have "(fst x, c (snd x)) \<in> set (column c agg)"
      unfolding column_set by (intro exI[of _ "snd x"]) simp
    with mn s(2) show ?thesis by fastforce
  qed
  with s(1) show ?thesis by blast
qed

lemma frame_row_fields:
  "Appliance (frame_row m duration device dev_id t) = device"
  "timestamp (frame_row m duration device dev_id t) = t"
  by (simp_all add: frame_row_def Let_def)

lemma run_final:
  assumes "run_forecast m sel days duration start_date = Inr out"
  shows "final out = concat (map (\<lambda>device. device_frame m duration
                        (date_range start_date (24 * days)) device
                        (int (the (index_of device (le_classes m))))) sel)"
    and "sel \<noteq> []" and "set sel \<subseteq> set (le_classes m)"
proof -
  from run_forecast_Inr[OF assms] obtain results where
    fd: "forecast_devices m duration (date_range start_date (24 * days)) sel = Inr results"
    and ne: "results \<noteq> []" and fin: "final out = concat results" by blast
  from fd show "final out = concat (map (\<lambda>device. device_frame m duration
                        (date_range start_date (24 * days)) device
                        (int (the (index_of device (le_classes m))))) sel)"
    unfolding fin forecast_devices_Inr by simp
  from fd ne show "sel \<noteq> []" unfolding forecast_devices_Inr by auto
  from fd show "set sel \<subseteq> set (le_classes m)" unfolding forecast_devices_Inr by simp
qed

lemma run_days_pos:
  assumes "run_forecast m sel days duration start_date = Inr out"
  shows "0 < days"
proof (rule ccontr)
  assume "\<not> 0 < days"
  then have "date_range start_date (24 * days) = []" by (simp add: date_range_def)
  then have "final out = []"
    unfolding run_final(1)[OF assms] by (simp add: device_frame_def)
  moreover from run_forecast_Inr[OF assms] have
    "daily_summary out = groupby_sum (\<lambda>r. ts_date (timestamp r)) (final out)"
    "idxmin (column Cost_sum (daily_summary out)) = Inr (best_day out)" by blast+
  ultimately show False by (simp add: groupby_sum_def column_def)
qed

lemma final_appliances:
  assumes "run_forecast m sel days duration start_date = Inr out"
  shows "Appliance ` set (final out) = set sel"
proof -
  have "date_range start_date (24 * days) \<noteq> []"
    using run_days_pos[OF assms] by (simp add: date_range_def)
  then obtain t where "t \<in> set (date_range start_date (24 * days))"
    by (cases "date_range start_date (24 * days)") auto
  then show ?thesis
    unfolding run_final(1)[OF assms] device_frame_def
    by (force simp: frame_row_fields image_iff)
qed

lemma final_dates:
  assumes "run_forecast m sel days duration start_date = Inr out"
  shows "(\<lambda>r. ts_date (timestamp r)) ` set (final out) = {start_date ..< start_date + int days}"
proof -
  from run_final(2)[OF assms] obtain device where "device \<in> set sel"
    by (cases sel) auto
  then have "(\<lambda>r. ts_date (timestamp r)) ` set (final out) =
        ts_date ` set (date_range start_date (24 * days))"
    unfolding run_final(1)[OF assms] device_frame_def
    by (force simp: frame_row_fields image_iff)
  then show ?thesis by (simp add: date_range_dates)
qed

lemma appliance_rows_frame:
  assumes "distinct sel" and "a \<in> set sel"
  shows "appliance_rows (concat (map (\<lambda>device. device_frame m duration future device (f device)) sel)) a
           = device_frame m duration future a (f a)"
proof -
  have one: "appliance_rows (device_frame m duration future device (f device)) a =
          (if device = a then device_frame m duration future a (f a) else [])" for device
    by (auto simp: appliance_rows_def device_frame_def filter_map o_def frame_row_fields)
  have cat: "appliance_rows (concat xss) a = concat (map (\<lambda>xs. appliance_rows xs a) xss)" for xss
    by (induction xss) (simp_all add: appliance_rows_def)
  from assms show ?thesis
    unfolding cat map_map o_def one
    by (induction sel) auto
qed

section \<open>Properties of the grouped sum\<close>

lemma rd_0: "rd 0 = 0"
  by (simp add: rd_def)

lemma kahan_add_exact:
  assumes "rd x = x" and "rd (s + x) = s + x"
  shows "kahan_add (s, 0) x = (s + x, 0)"
  using assms by (simp add: kahan_add_def Let_def fsub_def fadd_def rd_0)

lemma foldl_kahan_exact:
  "exact_from s xs \<Longrightarrow> foldl kahan_add (s, 0) xs = (s + sum_list xs, 0)"
proof (induction xs arbitrary: s)
  case Nil
  then show ?case by simp
next
  case (Cons x xs)
  then have "kahan_add (s, 0) x = (s + x, 0)" and "exact_from (s + x) xs"
    by (simp_all add: kahan_add_exact)
  with Cons.IH[of "s + x"] show ?case by (simp add: add.assoc)
qed

lemma group_sum_exact:
  "exactly_summable xs \<Longrightarrow> group_sum xs = sum_list xs"
  by (simp add: exactly_summable_def group_sum_def foldl_kahan_exact)

lemma exact_from_append:
  "exact_from s (xs @ ys) \<longleftrightarrow> exact_from s xs \<and> exact_from (s + sum_list xs) ys"
  by (induction xs arbitrary: s) (auto simp: add.assoc)

lemma exact_from_zeros:
  assumes "rd s = s" and "\<forall>x \<in> set xs. x = 0"
  shows "exact_from s xs" and "sum_list xs = 0"
  using assms by (induction xs) (simp_all add: rd_0)

lemma single_value_exact_from:
  assumes "rd s = s" and "rd v = v" and "rd (s + v) = s + v"
    and "distinct xs" and "k \<in> set xs" and "f k = v"
    and "\<forall>x \<in> set xs. x \<noteq> k \<longrightarrow> f x = 0"
  shows "exact_from s (map f xs)" and "sum_list (map f xs) = v"
proof -
  from assms(5) obtain pre post where xs: "xs = pre @ k # post"
    by (auto simp: in_set_conv_decomp)
  with assms(4) have "k \<notin> set pre" "k \<notin> set post" by auto
  with assms(7) xs have z: "\<forall>x \<in> set (map f pre). x = 0" "\<forall>x \<in> set (map f post). x = 0"
    by auto
  note pre = exact_from_zeros[OF assms(1) z(1)]
  note post = exact_from_zeros[OF assms(3) z(2)]
  have "exact_from s (map f pre @ v # map f post)"
    unfolding exact_from_append using pre post assms(2,3) by simp
  then show "exact_from s (map f xs)"
    by (simp add: xs assms(6))
  show "sum_list (map f xs) = v"
    using pre(2) post(2) by (simp add: xs assms(6))
qed

lemma single_value_summable:
  assumes "rd v = v" and "distinct xs" and "k \<in> set xs" and "f k = v"
    and "\<forall>x \<in> set xs. x \<noteq> k \<longrightarrow> f x = 0"
  shows "exactly_summable (map f xs)" and "sum_list (map f xs) = v"
proof -
  have "rd (0 + v) = 0 + v" using assms(1) by simp
  note th = single_value_exact_from[OF rd_0 assms(1) this assms(2-5)]
  from th(1) show "exactly_summable (map f xs)" by (simp add: exactly_summable_def)
  from th(2) show "sum_list (map f xs) = v" .
qed

lemma group_sum_map_single:
  assumes "rd v = v" and "distinct xs" and "k \<in> set xs" and "f k = v"
    and "\<forall>x \<in> set xs. x \<noteq> k \<longrightarrow> f x = 0"
  shows "group_sum (map f xs) = v"
  using single_value_summable[OF assms] by (simp add: group_sum_exact)

text \<open>
  The compensation at work: the grouped sum of the float64 values 0.1, 0.2 and 0.3 is
  the float64 0.6, while adding them from the left gives 0.6000000000000001.
\<close>

lemma group_sum_compensates:
  "group_sum [rd (1 / 10), rd (2 / 10), rd (3 / 10)] = rd (6 / 10)"
  "fadd (fadd (fadd 0 (rd (1 / 10))) (rd (2 / 10))) (rd (3 / 10)) = rd (6 / 10) + 1 / 2 ^ 53"
  by code_simp+

section \<open>The label file and the predicted label\<close>

lemma concat_readlines: "concat (readlines content) = content"
  by (induction content) (auto split: list.splits)

lemma readlines_sample:
  "readlines sample_labels = [''apple'' @ [newline], ''banana'']"
  by (simp add: sample_labels_def newline_def)

lemma read_labels_sample: "read_labels sample_labels = [''apple'', ''banan'']"
  by (simp add: read_labels_def readlines_sample)

lemma argmax_sample: "model_prediction sample_predict () = Inr 1"
  by (simp add: model_prediction_def np_argmax_def sample_predict_def)

lemma argmax_sample3: "model_prediction sample_predict3 () = Inr 2"
  by (simp add: model_prediction_def np_argmax_def sample_predict3_def)

text \<open>
  Claim C9. Each entry of the label list is the corresponding line of the label file,
  as \<open>readlines\<close> returns it, without its final character; and there is a label
  file whose last line has no trailing newline, for which the last label lacks the
  last character of that line.
\<close>

theorem labels_drop_final_char:
  "length (read_labels content) = length (readlines content) \<and>
   (\<forall>i < length (readlines content). read_labels content ! i = butlast (readlines content ! i)) \<and>
   (\<exists>content'. content' \<noteq> [] \<and> last content' \<noteq> newline \<and>
        last (read_labels content') = butlast (last (readlines content')) \<and>
        line_text (last (readlines content')) = last (readlines content') \<and>
        last (read_labels content') \<noteq> last (readlines content'))"
proof -
  have "sample_labels \<noteq> [] \<and> last sample_labels \<noteq> newline \<and>
        last (read_labels sample_labels) = butlast (last (readlines sample_labels)) \<and>
        line_text (last (readlines sample_labels)) = last (readlines sample_labels) \<and>
        last (read_labels sample_labels) \<noteq> last (readlines sample_labels)"
    unfolding read_labels_sample readlines_sample
    by (simp add: sample_labels_def newline_def line_text_def)
  then have ex: "\<exists>content'. content' \<noteq> [] \<and> last content' \<noteq> newline \<and>
        last (read_labels content') = butlast (last (readlines content')) \<and>
        line_text (last (readlines content')) = last (readlines content') \<and>
        last (read_labels content') \<noteq> last (readlines content')"
    by (rule exI[of _ sample_labels])
  have len: "length (read_labels content) = length (readlines content)"
    by (simp add: read_labels_def)
  have nth: "\<forall>i < length (readlines content).
               read_labels content ! i = butlast (readlines content ! i)"
    by (simp add: read_labels_def)
  from len nth ex show ?thesis by (intro conjI)
qed

theorem labels_drop_final_char_witness:
  "(1::nat) < length (readlines sample_labels) \<and>
   readlines sample_labels ! 1 = ''banana'' \<and>
   read_labels sample_labels ! 1 = ''banan''"
proof -
  have l: "(1::nat) < length (readlines sample_labels)"
    by (simp add: readlines_sample)
  have "read_labels sample_labels ! 1 = butlast (readlines sample_labels ! 1)"
    using labels_drop_final_char[of sample_labels, THEN conjunct2, THEN conjunct1] l
    by blast
  then show ?thesis
    by (simp add: readlines_sample)
qed

lemma argmax_from_spec:
  assumes "best < length pre" and "v = pre ! best"
    and "\<forall>j < length pre. pre ! j \<le> v" and "\<forall>j < best. pre ! j < v"
  shows "argmax_from best v (length pre) xs < length (pre @ xs) \<and>
         (\<forall>j < length (pre @ xs). (pre @ xs) ! j \<le> (pre @ xs) ! argmax_from best v (length pre) xs) \<and>
         (\<forall>j < argmax_from best v (length pre) xs.
             (pre @ xs) ! j < (pre @ xs) ! argmax_from best v (length pre) xs)"
  using assms
proof (induction xs arbitrary: pre best v)
  case Nil
  then show ?case by simp
next
  case (Cons x xs)
  let ?pre = "pre @ [x]"
  show ?case
  proof (cases "v < x")
    case True
    have "argmax_from (length pre) x (length ?pre) xs < length (?pre @ xs) \<and>
         (\<forall>j < length (?pre @ xs). (?pre @ xs) ! j \<le> (?pre @ xs) ! argmax_from (length pre) x (length ?pre) xs) \<and>
         (\<forall>j < argmax_from (length pre) x (length ?pre) xs.
             (?pre @ xs) ! j < (?pre @ xs) ! argmax_from (length pre) x (length ?pre) xs)"
    proof (rule Cons.IH)
      show "length pre < length ?pre" by simp
      show "x = ?pre ! length pre" by simp
      show "\<forall>j < length ?pre. ?pre ! j \<le> x"
        using Cons.prems(3) True by (auto simp: nth_append less_Suc_eq intro: order.trans less_imp_le)
      show "\<forall>j < length pre. ?pre ! j < x"
        using Cons.prems(3) True by (auto simp: nth_append intro: le_less_trans)
    qed
    with True show ?thesis by simp
  next
    case False
    have "argmax_from best v (length ?pre) xs < length (?pre @ xs) \<and>
         (\<forall>j < length (?pre @ xs). (?pre @ xs) ! j \<le> (?pre @ xs) ! argmax_from best v (length ?pre) xs) \<and>
         (\<forall>j < argmax_from best v (length ?pre) xs.
             (?pre @ xs) ! j < (?pre @ xs) ! argmax_from best v (length ?pre) xs)"
    proof (rule Cons.IH)
      show "best < length ?pre" using Cons.prems(1) by simp
      show "v = ?pre ! best" using Cons.prems(1,2) by (simp add: nth_append)
      show "\<forall>j < length ?pre. ?pre ! j \<le> v"
        using Cons.prems(3) False by (auto simp: nth_append less_Suc_eq)
      show "\<forall>j < best. ?pre ! j < v"
        using Cons.prems(1,4) by (auto simp: nth_append)
    qed
    with False show ?thesis by simp
  qed
qed

lemma np_argmax_spec:
  assumes "np_argmax xs = Inr k"
  shows "k < length xs \<and> (\<forall>j < length xs. xs ! j \<le> xs ! k) \<and> (\<forall>j < k. xs ! j < xs ! k)"
proof (cases xs)
  case Nil
  with assms show ?thesis by (simp add: np_argmax_def)
next
  case (Cons x xs')
  with assms have k: "k = argmax_from 0 x (length [x]) xs'"
    by (simp add: np_argmax_def)
  have "argmax_from 0 x (length [x]) xs' < length ([x] @ xs') \<and>
         (\<forall>j < length ([x] @ xs'). ([x] @ xs') ! j \<le> ([x] @ xs') ! argmax_from 0 x (length [x]) xs') \<and>
         (\<forall>j < argmax_from 0 x (length [x]) xs'.
             ([x] @ xs') ! j < ([x] @ xs') ! argmax_from 0 x (length [x]) xs')"
    by (rule argmax_from_spec) simp_all
  then show ?thesis unfolding k Cons by simp
qed

lemma np_argmax_total: "xs \<noteq> [] \<Longrightarrow> \<exists>k. np_argmax xs = Inr k"
  by (cases xs) (simp_all add: np_argmax_def)

lemma predict_label_cases:
  assumes "model_prediction predict img = Inr i"
  shows "predict_label predict content img =
           (if i < length (readlines content) then Inr (read_labels content ! i)
            else Inl IndexError)"
  using assms by (simp add: predict_label_def list_get_def read_labels_def)

lemma predict_label_terminated_line:
  assumes "predict_label predict content img = Inr l"
  shows "\<exists>i. model_prediction predict img = Inr i \<and> i < length (readlines content) \<and>
           l = butlast (readlines content ! i) \<and>
           (readlines content ! i \<noteq> [] \<and> last (readlines content ! i) = newline \<longrightarrow>
              l = line_text (readlines content ! i))"
proof (cases "model_prediction predict img")
  case (Inl e)
  with assms show ?thesis by (simp add: predict_label_def)
next
  case (Inr i)
  from assms have i: "i < length (readlines content)" and l: "l = read_labels content ! i"
    unfolding predict_label_cases[OF Inr] by (simp_all split: if_splits)
  from l i have "l = butlast (readlines content ! i)"
    by (simp add: read_labels_def)
  with Inr i show ?thesis
    by (intro exI[of _ i]) (simp add: line_text_def)
qed

text \<open>
  Claim C10. The lookup \<open>label[result_index]\<close> has no guard: when the classifier's
  argmax is \<open>i\<close>, the prediction returns a label if \<open>i\<close> is below the number of
  lines of the label file and fails with \<open>IndexError\<close> otherwise; a returned label
  always comes with an argmax below the number of lines; and there is a label file
  with fewer lines than the model has classes for which the prediction fails so.
\<close>

theorem label_lookup_unguarded:
  "(model_prediction predict img = Inr i \<longrightarrow>
      (i < length (readlines content) \<longrightarrow>
         predict_label predict content img = Inr (read_labels content ! i)) \<and>
      (length (readlines content) \<le> i \<longrightarrow>
         predict_label predict content img = Inl IndexError)) \<and>
   (predict_label predict content img = Inr l \<longrightarrow>
      (\<exists>k. model_prediction predict img = Inr k \<and> k < length (readlines content))) \<and>
   (\<exists>content'. length (readlines content') < length (sample_predict3 ()) \<and>
      predict_label sample_predict3 content' () = Inl IndexError)"
proof -
  have a: "model_prediction predict img = Inr i \<longrightarrow>
      (i < length (readlines content) \<longrightarrow>
         predict_label predict content img = Inr (read_labels content ! i)) \<and>
      (length (readlines content) \<le> i \<longrightarrow>
         predict_label predict content img = Inl IndexError)"
    by (simp add: predict_label_cases)
  have b: "predict_label predict content img = Inr l \<longrightarrow>
      (\<exists>k. model_prediction predict img = Inr k \<and> k < length (readlines content))"
  proof
    assume "predict_label predict content img = Inr l"
    from predict_label_terminated_line[OF this] obtain k where
      "model_prediction predict img = Inr k" "k < length (readlines content)" by blast
    then show "\<exists>k. model_prediction predict img = Inr k \<and> k < length (readlines content)"
      by (intro exI[of _ k] conjI)
  qed
  have "length (readlines sample_labels) < length (sample_predict3 ()) \<and>
      predict_label sample_predict3 sample_labels () = Inl IndexError"
    by (simp add: predict_label_cases[OF argmax_sample3] readlines_sample sample_predict3_def)
  then have c: "\<exists>content'. length (readlines content') < length (sample_predict3 ()) \<and>
      predict_label sample_predict3 content' () = Inl IndexError"
    by (rule exI[of _ sample_labels])
  from a b c show ?thesis by (intro conjI)
qed

theorem label_lookup_unguarded_witness:
  "model_prediction sample_predict () = Inr 1 \<and>
   (1::nat) < length (readlines sample_labels) \<and>
   predict_label sample_predict sample_labels () = Inr ''banan'' \<and>
   model_prediction sample_predict3 () = Inr 2 \<and>
   length (readlines sample_labels) \<le> (2::nat) \<and>
   predict_label sample_predict3 sample_labels () = Inl IndexError"
proof -
  have l1: "(1::nat) < length (readlines sample_labels)"
    and l2: "length (readlines sample_labels) \<le> (2::nat)"
    by (simp_all add: readlines_sample)
  have "predict_label sample_predict sample_labels () = Inr (read_labels sample_labels ! 1)"
    by (rule label_lookup_unguarded[of sample_predict "()" 1 sample_labels,
          THEN conjunct1, THEN mp, OF argmax_sample, THEN conjunct1, THEN mp, OF l1])
  then have p1: "predict_label sample_predict sample_labels () = Inr ''banan''"
    by (simp add: read_labels_sample)
  have p2: "predict_label sample_predict3 sample_labels () = Inl IndexError"
    by (rule label_lookup_unguarded[of sample_predict3 "()" 2 sample_labels,
          THEN conjunct1, THEN mp, OF argmax_sample3, THEN conjunct2, THEN mp, OF l2])
  from argmax_sample l1 p1 argmax_sample3 l2 p2 show ?thesis by (intro conjI)
qed

text \<open>
  Claim C7, at the label file \<open>apple\<close>, \<open>banana\<close> whose last line has no trailing
  newline and the probabilities \<open>[0.1, 0.9]\<close>: the argmax is 1, the line at position 1
  is \<open>banana\<close>, and the label reported is \<open>banan\<close>.
\<close>

theorem predict_label_unterminated_line:
  "model_prediction sample_predict () = Inr 1 \<and>
   line_text (readlines sample_labels ! 1) = ''banana'' \<and>
   predict_label sample_predict sample_labels () = Inr ''banan''"
proof -
  have "line_text (readlines sample_labels ! 1) = ''banana''"
    by (simp add: readlines_sample line_text_def newline_def)
  moreover have "predict_label sample_predict sample_labels () = Inr ''banan''"
    by (simp add: predict_label_cases[OF argmax_sample] readlines_sample read_labels_sample)
  ultimately show ?thesis using argmax_sample by (intro conjI)
qed

section \<open>The worked example of a row\<close>

lemma example_energy: "fdiv (fmul 1000 (f64_of_int 3)) (f64_of_int 1000) = 3"
  by code_simp

lemma example_cost: "fmul 3 TARIFF_NIGHT = 607985949695017 / 2251799813685248"
  by code_simp

lemma example_co2: "fmul 3 CO2_FACTOR = 1604407367250739 / 1125899906842624"
  by code_simp

lemma f64_0_27: "rd (27 / 100) = 607985949695017 / 2251799813685248"
  by code_simp

lemma f64_1_425: "rd (1425 / 1000) = 6417629469002957 / 4503599627370496"
  by code_simp

lemma example_row_values:
  assumes "reg_model m (ts_hour t) (ts_day t) (ts_weekday t) dev_id = 1000"
    and "ts_hour t = 23"
  shows "Energy_kWh (frame_row m 3 device dev_id t) = 3"
    and "hour (frame_row m 3 device dev_id t) = 23"
    and "Cost (frame_row m 3 device dev_id t) = 607985949695017 / 2251799813685248"
    and "CO2_kg (frame_row m 3 device dev_id t) = 1604407367250739 / 1125899906842624"
  using assms
  by (simp_all add: frame_row_def Let_def example_energy example_cost example_co2 tariff_def)

lemma demo_example_row:
  "reg_model demo (ts_hour 462239) (ts_day 462239) (ts_weekday 462239) 0 = 1000"
  "ts_hour 462239 = 23"
  by (simp_all add: demo_def ts_hour_def ts_weekday_def ts_date_def)

text \<open>
  Claim C6, as stated, at the row of the sample model for 2022-09-24 23:00, which
  has 1000 predicted watts at hour 23, with 3 usage hours: the emissions of the row
  are not the float64 \<open>1.425\<close>, and not the rational 1.425 either.
\<close>

theorem example_row_counterexample:
  "Watts (frame_row demo 3 ''Fridge'' 0 462239) = 1000 \<and>
   hour (frame_row demo 3 ''Fridge'' 0 462239) = 23 \<and>
   \<not> (Energy_kWh (frame_row demo 3 ''Fridge'' 0 462239) = 3 \<and>
      tariff (hour (frame_row demo 3 ''Fridge'' 0 462239)) = TARIFF_NIGHT \<and>
      Cost (frame_row demo 3 ''Fridge'' 0 462239) = rd (27 / 100) \<and>
      CO2_kg (frame_row demo 3 ''Fridge'' 0 462239) = rd (1425 / 1000)) \<and>
   CO2_kg (frame_row demo 3 ''Fridge'' 0 462239) \<noteq> 1425 / 1000"
proof -
  have w: "Watts (frame_row demo 3 ''Fridge'' 0 462239) = 1000"
    using demo_example_row(1) by (simp add: frame_row_def Let_def)
  have z: "CO2_kg (frame_row demo 3 ''Fridge'' 0 462239) = 1604407367250739 / 1125899906842624"
    by (rule example_row_values(4)[OF demo_example_row])
  have h: "hour (frame_row demo 3 ''Fridge'' 0 462239) = 23"
    by (rule example_row_values(2)[OF demo_example_row])
  have n1: "CO2_kg (frame_row demo 3 ''Fridge'' 0 462239) \<noteq> rd (1425 / 1000)"
    unfolding z f64_1_425 by simp
  have n2: "CO2_kg (frame_row demo 3 ''Fridge'' 0 462239) \<noteq> 1425 / 1000"
    unfolding z by simp
  from w h n1 n2 show ?thesis by simp
qed

text \<open>
  Claim C6, amended. With 3 usage hours, a row with 1000 predicted watts at hour 23
  has energy 3.0, is charged the night tariff, has the float64 \<open>0.27\<close> as cost, and has
  emissions 1.4249999999999998, the float64 product of 3.0 and the emission factor:
  one unit in the last place (\<open>2\<^sup>-\<^sup>5\<^sup>2\<close>) below the float64 \<open>1.425\<close>.
\<close>

theorem example_row:
  assumes "reg_model m (ts_hour t) (ts_day t) (ts_weekday t) dev_id = 1000"
    and "ts_hour t = 23"
  shows "Energy_kWh (frame_row m 3 device dev_id t) = 3 \<and>
         tariff (hour (frame_row m 3 device dev_id t)) = TARIFF_NIGHT \<and>
         Cost (frame_row m 3 device dev_id t) = rd (27 / 100) \<and>
         CO2_kg (frame_row m 3 device dev_id t) = 1604407367250739 / 1125899906842624 \<and>
         rd (1425 / 1000) - CO2_kg (frame_row m 3 device dev_id t) = 1 / 2 ^ 52"
proof -
  note v = example_row_values[OF assms, of device]
  have t: "tariff (hour (frame_row m 3 device dev_id t)) = TARIFF_NIGHT"
    unfolding v(2) by (simp add: tariff_def)
  have c: "Cost (frame_row m 3 device dev_id t) = rd (27 / 100)"
    unfolding v(3) f64_0_27 ..
  have d: "rd (1425 / 1000) - CO2_kg (frame_row m 3 device dev_id t) = 1 / 2 ^ 52"
    unfolding v(4) f64_1_425 by simp
  from v(1) t c v(4) d show ?thesis by (intro conjI)
qed

theorem example_row_witness:
  "reg_model demo (ts_hour 462239) (ts_day 462239) (ts_weekday 462239) 0 = 1000 \<and>
   ts_hour 462239 = 23 \<and>
   Energy_kWh (frame_row demo 3 ''Fridge'' 0 462239) = 3 \<and>
   Cost (frame_row demo 3 ''Fridge'' 0 462239) = rd (27 / 100) \<and>
   CO2_kg (frame_row demo 3 ''Fridge'' 0 462239) = 1604407367250739 / 1125899906842624"
proof -
  note th = example_row[OF demo_example_row, of "''Fridge''"]
  from demo_example_row th[THEN conjunct1] th[THEN conjunct2, THEN conjunct2, THEN conjunct1]
    th[THEN conjunct2, THEN conjunct2, THEN conjunct2, THEN conjunct1]
  show ?thesis by (intro conjI)
qed

section \<open>The sample run\<close>

lemma frame_row_zero:
  assumes "reg_model m (ts_hour t) (ts_day t) (ts_weekday t) dev_id = 0"
  shows "Cost (frame_row m duration device dev_id t) = 0"
    and "CO2_kg (frame_row m duration device dev_id t) = 0"
  using assms by (simp_all add: frame_row_def Let_def fmul_def fdiv_def rd_0)

lemma date_range_distinct: "distinct (date_range start_date periods)"
  by (simp add: date_range_def distinct_map inj_on_def)

lemma demo_window:
  assumes "t \<in> set (date_range 19259 72)"
  shows "462216 \<le> t" and "t < 462288"
  using assms by (auto simp: date_range_def)

lemma demo_window_points:
  "462239 \<in> set (date_range 19259 72)" "462228 \<in> set (date_range 19259 72)"
proof -
  have "24 * 19259 + int 23 \<in> set (date_range 19259 72)"
    "24 * 19259 + int 12 \<in> set (date_range 19259 72)"
    unfolding date_range_def by (simp_all del: of_nat_numeral)
  then show "462239 \<in> set (date_range 19259 72)" "462228 \<in> set (date_range 19259 72)"
    by simp_all
qed

lemma demo_fridge_hours:
  assumes "462216 \<le> t" and "t < 462288" and "t \<noteq> 462239"
  shows "reg_model demo (ts_hour t) (ts_day t) (ts_weekday t) 0 = 0"
proof -
  have "\<not> (t mod 24 = 23 \<and> (t div 24 + 3) mod 7 = 5)"
    using assms by presburger
  then show ?thesis
    by (auto simp: demo_def ts_hour_def ts_weekday_def ts_date_def)
qed

lemma demo_tv_hours:
  assumes "462216 \<le> t" and "t < 462288" and "t \<noteq> 462228"
  shows "reg_model demo (ts_hour t) (ts_day t) (ts_weekday t) 1 = 0"
proof -
  have "\<not> (t mod 24 = 12 \<and> (t div 24 + 3) mod 7 = 5)"
    using assms by presburger
  then show ?thesis
    by (auto simp: demo_def ts_hour_def ts_weekday_def ts_date_def)
qed

lemma tv_row_values:
  "fdiv (fmul 900 (f64_of_int 3)) (f64_of_int 1000) = 3039929748475085 / 1125899906842624"
  "fmul (3039929748475085 / 1125899906842624) TARIFF_DAY = 1823957849085051 / 4503599627370496"
  "fmul (3039929748475085 / 1125899906842624) CO2_FACTOR = 5775866522102661 / 4503599627370496"
  by code_simp+

lemma demo_values_f64:
  "rd (607985949695017 / 2251799813685248) = 607985949695017 / 2251799813685248"
  "rd (1604407367250739 / 1125899906842624) = 1604407367250739 / 1125899906842624"
  "rd (1823957849085051 / 4503599627370496) = 1823957849085051 / 4503599627370496"
  "rd (5775866522102661 / 4503599627370496) = 5775866522102661 / 4503599627370496"
  by code_simp+

lemma tv_row:
  assumes "reg_model m (ts_hour t) (ts_day t) (ts_weekday t) dev_id = 900"
    and "ts_hour t = 12"
  shows "Cost (frame_row m 3 device dev_id t) = 1823957849085051 / 4503599627370496"
    and "CO2_kg (frame_row m 3 device dev_id t) = 5775866522102661 / 4503599627370496"
  using assms
  by (simp_all add: frame_row_def Let_def tv_row_values tariff_def)

lemma demo_tv_features:
  "reg_model demo (ts_hour 462228) (ts_day 462228) (ts_weekday 462228) 1 = 900"
  "ts_hour 462228 = 12"
  by (simp_all add: demo_def ts_hour_def ts_weekday_def ts_date_def)

lemmas demo_tv_row = tv_row[OF demo_tv_features, of "''TV''"]

lemma demo_fridge_sums:
  "group_sum (map Cost (device_frame demo 3 (date_range 19259 72) ''Fridge'' 0))
     = 607985949695017 / 2251799813685248"
  "group_sum (map CO2_kg (device_frame demo 3 (date_range 19259 72) ''Fridge'' 0))
     = 1604407367250739 / 1125899906842624"
proof -
  have z: "\<forall>t \<in> set (date_range 19259 72). t \<noteq> 462239 \<longrightarrow>
             Cost (frame_row demo 3 ''Fridge'' 0 t) = 0"
    "\<forall>t \<in> set (date_range 19259 72). t \<noteq> 462239 \<longrightarrow>
             CO2_kg (frame_row demo 3 ''Fridge'' 0 t) = 0"
    using demo_window demo_fridge_hours frame_row_zero by blast+
  have "group_sum (map (\<lambda>t. Cost (frame_row demo 3 ''Fridge'' 0 t)) (date_range 19259 72))
          = 607985949695017 / 2251799813685248"
    by (rule group_sum_map_single[OF demo_values_f64(1) date_range_distinct demo_window_points(1)
          example_row_values(3)[OF demo_example_row] z(1)])
  then show "group_sum (map Cost (device_frame demo 3 (date_range 19259 72) ''Fridge'' 0))
     = 607985949695017 / 2251799813685248"
    by (simp add: device_frame_def o_def)
  have "group_sum (map (\<lambda>t. CO2_kg (frame_row demo 3 ''Fridge'' 0 t)) (date_range 19259 72))
          = 1604407367250739 / 1125899906842624"
    by (rule group_sum_map_single[OF demo_values_f64(2) date_range_distinct demo_window_points(1)
          example_row_values(4)[OF demo_example_row] z(2)])
  then show "group_sum (map CO2_kg (device_frame demo 3 (date_range 19259 72) ''Fridge'' 0))
     = 1604407367250739 / 1125899906842624"
    by (simp add: device_frame_def o_def)
qed

lemma demo_tv_sums:
  "group_sum (map Cost (device_frame demo 3 (date_range 19259 72) ''TV'' 1))
     = 1823957849085051 / 4503599627370496"
  "group_sum (map CO2_kg (device_frame demo 3 (date_range 19259 72) ''TV'' 1))
     = 5775866522102661 / 4503599627370496"
proof -
  have z: "\<forall>t \<in> set (date_range 19259 72). t \<noteq> 462228 \<longrightarrow>
             Cost (frame_row demo 3 ''TV'' 1 t) = 0"
    "\<forall>t \<in> set (date_range 19259 72). t \<noteq> 462228 \<longrightarrow>
             CO2_kg (frame_row demo 3 ''TV'' 1 t) = 0"
    using demo_window demo_tv_hours frame_row_zero by blast+
  have "group_sum (map (\<lambda>t. Cost (frame_row demo 3 ''TV'' 1 t)) (date_range 19259 72))
          = 1823957849085051 / 4503599627370496"
    by (rule group_sum_map_single[OF demo_values_f64(3) date_range_distinct demo_window_points(2)
          demo_tv_row(1) z(1)])
  then show "group_sum (map Cost (device_frame demo 3 (date_range 19259 72) ''TV'' 1))
     = 1823957849085051 / 4503599627370496"
    by (simp add: device_frame_def o_def)
  have "group_sum (map (\<lambda>t. CO2_kg (frame_row demo 3 ''TV'' 1 t)) (date_range 19259 72))
          = 5775866522102661 / 4503599627370496"
    by (rule group_sum_map_single[OF demo_values_f64(4) date_range_distinct demo_window_points(2)
          demo_tv_row(2) z(2)])
  then show "group_sum (map CO2_kg (device_frame demo 3 (date_range 19259 72) ''TV'' 1))
     = 5775866522102661 / 4503599627370496"
    by (simp add: device_frame_def o_def)
qed

lemma demo_tv_cost_summable:
  "exactly_summable (map Cost (device_frame demo 3 (date_range 19259 72) ''TV'' 1))"
  "sum_list (map Cost (device_frame demo 3 (date_range 19259 72) ''TV'' 1))
     = 1823957849085051 / 4503599627370496"
proof -
  have z: "\<forall>t \<in> set (date_range 19259 72). t \<noteq> 462228 \<longrightarrow>
             Cost (frame_row demo 3 ''TV'' 1 t) = 0"
    using demo_window demo_tv_hours frame_row_zero by blast
  note th = single_value_summable[OF demo_values_f64(3) date_range_distinct
      demo_window_points(2) demo_tv_row(1) z]
  from th(1) show "exactly_summable (map Cost (device_frame demo 3 (date_range 19259 72) ''TV'' 1))"
    by (simp add: device_frame_def o_def)
  from th(2) show "sum_list (map Cost (device_frame demo 3 (date_range 19259 72) ''TV'' 1))
     = 1823957849085051 / 4503599627370496"
    by (simp add: device_frame_def o_def)
qed

section \<open>The aggregates of a run\<close>

lemma summary_entry:
  assumes "run_forecast m sel days duration start_date = Inr out"
  shows "(a, s) \<in> set (summary out) \<longleftrightarrow>
           a \<in> set sel \<and>
           s = \<lparr>Energy_sum = group_sum (map Energy_kWh (appliance_rows (final out) a)),
                CO2_sum = group_sum (map CO2_kg (appliance_rows (final out) a)),
                Cost_sum = group_sum (map Cost (appliance_rows (final out) a))\<rparr>"
proof -
  from run_forecast_Inr[OF assms] have "summary out = groupby_sum Appliance (final out)"
    by blast
  then show ?thesis
    by (simp add: groupby_sum_set final_appliances[OF assms] group_totals appliance_rows_def)
qed

lemma daily_entry:
  assumes "run_forecast m sel days duration start_date = Inr out"
  shows "(d, s) \<in> set (daily_summary out) \<longleftrightarrow>
           d \<in> {start_date ..< start_date + int days} \<and>
           s = sums_of (foldl add_row zero_accs (day_rows (final out) d))"
proof -
  from run_forecast_Inr[OF assms] have
    "daily_summary out = groupby_sum (\<lambda>r. ts_date (timestamp r)) (final out)"
    by blast
  then show ?thesis
    by (simp add: groupby_sum_set final_dates[OF assms] day_rows_def)
qed

lemma daily_cost:
  assumes "run_forecast m sel days duration start_date = Inr out"
    and "(d, s) \<in> set (daily_summary out)"
  shows "Cost_sum s = day_cost (final out) d"
  using assms(2) unfolding daily_entry[OF assms(1)]
  by (simp add: group_totals day_cost_def)

text \<open>
  Claim C5. The summary table of a forecast has one row for each selected appliance,
  and each of its entries is the grouped sum, in row order, of the per-hour values
  over the rows of \<open>final\<close> that carry that appliance's name: the compensated float64
  sum, which is the exact sum of the values whenever they are exactly summable. When
  no appliance is selected twice these rows are the frame built for the appliance.
\<close>

theorem summary_sums_appliance_rows:
  assumes "run_forecast m sel days duration start_date = Inr out"
  shows "fst ` set (summary out) = set sel \<and> distinct (map fst (summary out)) \<and>
         (\<forall>x \<in> set (summary out).
            Energy_sum (snd x) = group_sum (map Energy_kWh (appliance_rows (final out) (fst x))) \<and>
            CO2_sum (snd x) = group_sum (map CO2_kg (appliance_rows (final out) (fst x))) \<and>
            Cost_sum (snd x) = group_sum (map Cost (appliance_rows (final out) (fst x))) \<and>
            (exactly_summable (map Energy_kWh (appliance_rows (final out) (fst x))) \<longrightarrow>
               Energy_sum (snd x) = sum_list (map Energy_kWh (appliance_rows (final out) (fst x)))) \<and>
            (exactly_summable (map CO2_kg (appliance_rows (final out) (fst x))) \<longrightarrow>
               CO2_sum (snd x) = sum_list (map CO2_kg (appliance_rows (final out) (fst x)))) \<and>
            (exactly_summable (map Cost (appliance_rows (final out) (fst x))) \<longrightarrow>
               Cost_sum (snd x) = sum_list (map Cost (appliance_rows (final out) (fst x))))) \<and>
         (distinct sel \<longrightarrow>
            (\<forall>a \<in> set sel. appliance_rows (final out) a =
               device_frame m duration (date_range start_date (24 * days)) a
                 (int (the (index_of a (le_classes m))))))"
proof -
  have keys: "fst ` set (summary out) = set sel"
    using summary_entry[OF assms] by (force simp: image_iff)
  have "summary out = groupby_sum Appliance (final out)"
    using run_forecast_Inr[OF assms] by blast
  then have dist: "distinct (map fst (summary out))"
    by (simp only: groupby_sum_distinct)
  have sums: "Energy_sum (snd x) = group_sum (map Energy_kWh (appliance_rows (final out) (fst x))) \<and>
            CO2_sum (snd x) = group_sum (map CO2_kg (appliance_rows (final out) (fst x))) \<and>
            Cost_sum (snd x) = group_sum (map Cost (appliance_rows (final out) (fst x))) \<and>
            (exactly_summable (map Energy_kWh (appliance_rows (final out) (fst x))) \<longrightarrow>
               Energy_sum (snd x) = sum_list (map Energy_kWh (appliance_rows (final out) (fst x)))) \<and>
            (exactly_summable (map CO2_kg (appliance_rows (final out) (fst x))) \<longrightarrow>
               CO2_sum (snd x) = sum_list (map CO2_kg (appliance_rows (final out) (fst x)))) \<and>
            (exactly_summable (map Cost (appliance_rows (final out) (fst x))) \<longrightarrow>
               Cost_sum (snd x) = sum_list (map Cost (appliance_rows (final out) (fst x))))"
    if "x \<in> set (summary out)" for x
  proof -
    from that have "(fst x, snd x) \<in> set (summary out)" by simp
    then have s: "snd x =
        \<lparr>Energy_sum = group_sum (map Energy_kWh (appliance_rows (final out) (fst x))),
         CO2_sum = group_sum (map CO2_kg (appliance_rows (final out) (fst x))),
         Cost_sum = group_sum (map Cost (appliance_rows (final out) (fst x)))\<rparr>"
      unfolding summary_entry[OF assms] by simp
    show ?thesis
      by (subst (1 2 3 4 5 6) s) (simp add: group_sum_exact)
  qed
  have frames: "appliance_rows (final out) a =
               device_frame m duration (date_range start_date (24 * days)) a
                 (int (the (index_of a (le_classes m))))"
    if "distinct sel" "a \<in> set sel" for a
    unfolding run_final(1)[OF assms] using that by (rule appliance_rows_frame)
  show ?thesis
  proof (intro conjI ballI impI)
    show "fst ` set (summary out) = set sel" by (rule keys)
    show "distinct (map fst (summary out))" by (rule dist)
  qed (use sums frames in blast)+
qed

text \<open>
  In the sample run the television's only non-zero hour costs 0.405, its cost column
  is exactly summable, and its total in the summary is 0.405.
\<close>

theorem summary_sums_appliance_rows_witness:
  "\<exists>out x. run_forecast demo [''Fridge'', ''TV''] 3 3 19259 = Inr out \<and>
     x \<in> set (summary out) \<and> fst x = ''TV'' \<and>
     distinct [''Fridge'', ''TV''] \<and>
     appliance_rows (final out) ''TV'' =
       device_frame demo 3 (date_range 19259 72) ''TV'' 1 \<and>
     exactly_summable (map Cost (appliance_rows (final out) (fst x))) \<and>
     Cost_sum (snd x) = sum_list (map Cost (appliance_rows (final out) (fst x))) \<and>
     Cost_sum (snd x) = 1823957849085051 / 4503599627370496"
proof -
  from demo_run obtain out where out: "run_forecast demo [''Fridge'', ''TV''] 3 3 19259 = Inr out"
    by blast
  note th = summary_sums_appliance_rows[OF out]
  have dist: "distinct [''Fridge'', ''TV'']" by simp
  have mem: "''TV'' \<in> set [''Fridge'', ''TV'']" by simp
  have ix: "int (the (index_of ''TV'' (le_classes demo))) = 1"
    by (simp add: demo_def)
  have "appliance_rows (final out) ''TV'' =
       device_frame demo 3 (date_range 19259 (24 * 3)) ''TV''
         (int (the (index_of ''TV'' (le_classes demo))))"
    using th[THEN conjunct2, THEN conjunct2, THEN conjunct2, rule_format, OF dist mem] .
  then have rows: "appliance_rows (final out) ''TV'' =
       device_frame demo 3 (date_range 19259 72) ''TV'' 1"
    unfolding ix by simp
  have "''TV'' \<in> fst ` set (summary out)"
    unfolding th[THEN conjunct1] by simp
  then obtain x where x: "x \<in> set (summary out)" and fx: "fst x = ''TV''"
    by auto
  have ex: "exactly_summable (map Cost (appliance_rows (final out) (fst x)))"
    unfolding fx rows by (rule demo_tv_cost_summable(1))
  note entry = th[THEN conjunct2, THEN conjunct2, THEN conjunct1, THEN bspec, OF x]
  have eq: "Cost_sum (snd x) = sum_list (map Cost (appliance_rows (final out) (fst x)))"
    using entry ex by blast
  have val: "Cost_sum (snd x) = 1823957849085051 / 4503599627370496"
    unfolding eq fx rows by (rule demo_tv_cost_summable(2))
  show ?thesis
    by (intro exI[of _ out] exI[of _ x] conjI out x fx dist rows ex eq val)
qed

lemma day_rows_append: "day_rows (xs @ ys) d = day_rows xs d @ day_rows ys d"
  by (simp add: day_rows_def)

lemma day_rows_frame:
  "map Cost (day_rows (device_frame m duration future device dev_id) d) =
     map (\<lambda>t. Cost (frame_row m duration device dev_id t)) (filter (\<lambda>t. ts_date t = d) future)"
  by (simp add: day_rows_def device_frame_def filter_map o_def frame_row_fields)

lemma demo_first_day_sum: "rd (607985949695017 / 2251799813685248 +
    1823957849085051 / 4503599627370496) =
    607985949695017 / 2251799813685248 + 1823957849085051 / 4503599627370496"
  by code_simp

lemma demo_final:
  assumes "run_forecast demo [''Fridge'', ''TV''] 3 3 19259 = Inr out"
  shows "final out = device_frame demo 3 (date_range 19259 72) ''Fridge'' 0 @
                     device_frame demo 3 (date_range 19259 72) ''TV'' 1"
  unfolding run_final(1)[OF assms] by (simp add: demo_def)

lemma demo_first_day:
  assumes "run_forecast demo [''Fridge'', ''TV''] 3 3 19259 = Inr out"
  shows "exactly_summable (map Cost (day_rows (final out) 19259))"
    and "sum_list (map Cost (day_rows (final out) 19259)) = 3039929748475085 / 4503599627370496"
proof -
  let ?D = "filter (\<lambda>t. ts_date t = 19259) (date_range 19259 72)"
  let ?cF = "\<lambda>t. Cost (frame_row demo 3 ''Fridge'' 0 t)"
  let ?cT = "\<lambda>t. Cost (frame_row demo 3 ''TV'' 1 t)"
  have dist: "distinct ?D" by (simp add: date_range_distinct)
  have kF: "462239 \<in> set ?D" and kT: "462228 \<in> set ?D"
    using demo_window_points by (simp_all add: ts_date_def)
  have zF: "\<forall>t \<in> set ?D. t \<noteq> 462239 \<longrightarrow> ?cF t = 0"
    using demo_window demo_fridge_hours frame_row_zero(1) by simp
  have zT: "\<forall>t \<in> set ?D. t \<noteq> 462228 \<longrightarrow> ?cT t = 0"
    using demo_window demo_tv_hours frame_row_zero(1) by simp
  have vF: "?cF 462239 = 607985949695017 / 2251799813685248"
    by (rule example_row_values(3)[OF demo_example_row])
  have vT: "?cT 462228 = 1823957849085051 / 4503599627370496"
    by (rule demo_tv_row(1))
  have r0: "rd (0 + 607985949695017 / 2251799813685248) = 0 + 607985949695017 / 2251799813685248"
    using demo_values_f64(1) by simp
  note F = single_value_exact_from[OF rd_0 demo_values_f64(1) r0 dist kF vF zF]
  note T = single_value_exact_from[OF demo_values_f64(1) demo_values_f64(3)
      demo_first_day_sum dist kT vT zT]
  have rows: "map Cost (day_rows (final out) 19259) = map ?cF ?D @ map ?cT ?D"
    unfolding demo_final[OF assms] day_rows_append map_append day_rows_frame ..
  have "exact_from (0 + sum_list (map ?cF ?D)) (map ?cT ?D)"
    unfolding F(2) using T(1) by simp
  with F(1) have "exact_from 0 (map ?cF ?D) \<and> exact_from (0 + sum_list (map ?cF ?D)) (map ?cT ?D)"
    by (rule conjI)
  then show "exactly_summable (map Cost (day_rows (final out) 19259))"
    unfolding rows exactly_summable_def exact_from_append .
  have "sum_list (map ?cF ?D @ map ?cT ?D) =
      607985949695017 / 2251799813685248 + 1823957849085051 / 4503599627370496"
    unfolding sum_list_append F(2) T(2) ..
  also have "\<dots> = 3039929748475085 / 4503599627370496" by simp
  finally show "sum_list (map Cost (day_rows (final out) 19259)) =
      3039929748475085 / 4503599627370496"
    unfolding rows .
qed

text \<open>
  Claim C4. \<open>best_day\<close> and \<open>worst_day\<close> of a forecast are calendar days of the
  forecast window. Every day of the window has a row in the daily summary whose cost
  is the grouped sum of the costs of all rows of that day (the rows of every selected
  appliance): the compensated float64 sum, which is the exact sum whenever the costs
  are exactly summable. That summed cost is smallest on \<open>best_day\<close> and largest on
  \<open>worst_day\<close> among the days of the window.
\<close>

theorem best_and_worst_day:
  assumes "run_forecast m sel days duration start_date = Inr out"
  shows "best_day out \<in> {start_date ..< start_date + int days} \<and>
         worst_day out \<in> {start_date ..< start_date + int days} \<and>
         (\<forall>d \<in> {start_date ..< start_date + int days}.
            day_cost (final out) (best_day out) \<le> day_cost (final out) d \<and>
            day_cost (final out) d \<le> day_cost (final out) (worst_day out) \<and>
            (\<exists>s. (d, s) \<in> set (daily_summary out) \<and> Cost_sum s = day_cost (final out) d) \<and>
            (exactly_summable (map Cost (day_rows (final out) d)) \<longrightarrow>
               day_cost (final out) d = sum_list (map Cost (day_rows (final out) d))))"
proof -
  from run_forecast_Inr[OF assms] have
    mn: "idxmin (column Cost_sum (daily_summary out)) = Inr (best_day out)" and
    mx: "idxmax (column Cost_sum (daily_summary out)) = Inr (worst_day out)" by blast+
  from idxmin_column[OF mn] obtain sb where
    sb: "(best_day out, sb) \<in> set (daily_summary out)"
    and least: "\<forall>x \<in> set (daily_summary out). Cost_sum sb \<le> Cost_sum (snd x)" by blast
  from idxmax_column[OF mx] obtain sw where
    sw: "(worst_day out, sw) \<in> set (daily_summary out)"
    and greatest: "\<forall>x \<in> set (daily_summary out). Cost_sum (snd x) \<le> Cost_sum sw" by blast
  have b: "best_day out \<in> {start_date ..< start_date + int days}"
    using sb unfolding daily_entry[OF assms] by simp
  have w: "worst_day out \<in> {start_date ..< start_date + int days}"
    using sw unfolding daily_entry[OF assms] by simp
  have "day_cost (final out) (best_day out) \<le> day_cost (final out) d \<and>
        day_cost (final out) d \<le> day_cost (final out) (worst_day out) \<and>
        (\<exists>s. (d, s) \<in> set (daily_summary out) \<and> Cost_sum s = day_cost (final out) d) \<and>
        (exactly_summable (map Cost (day_rows (final out) d)) \<longrightarrow>
           day_cost (final out) d = sum_list (map Cost (day_rows (final out) d)))"
    if "d \<in> {start_date ..< start_date + int days}" for d
  proof -
    define s where "s = sums_of (foldl add_row zero_accs (day_rows (final out) d))"
    have s: "(d, s) \<in> set (daily_summary out)"
      unfolding daily_entry[OF assms] s_def using that by simp
    have "Cost_sum sb \<le> Cost_sum (snd (d, s))" using least s by (rule bspec)
    then have lo: "Cost_sum sb \<le> Cost_sum s" by simp
    have "Cost_sum (snd (d, s)) \<le> Cost_sum sw" using greatest s by (rule bspec)
    then have hi: "Cost_sum s \<le> Cost_sum sw" by simp
    have lh: "day_cost (final out) (best_day out) \<le> day_cost (final out) d"
      "day_cost (final out) d \<le> day_cost (final out) (worst_day out)"
      using lo hi
      unfolding daily_cost[OF assms s] daily_cost[OF assms sb] daily_cost[OF assms sw]
      by simp_all
    have en: "\<exists>s. (d, s) \<in> set (daily_summary out) \<and> Cost_sum s = day_cost (final out) d"
      using s daily_cost[OF assms s] by (intro exI[of _ s] conjI)
    have ex: "exactly_summable (map Cost (day_rows (final out) d)) \<longrightarrow>
           day_cost (final out) d = sum_list (map Cost (day_rows (final out) d))"
      by (simp add: day_cost_def group_sum_exact)
    from lh en ex show ?thesis by (intro conjI)
  qed
  then have "\<forall>d \<in> {start_date ..< start_date + int days}.
            day_cost (final out) (best_day out) \<le> day_cost (final out) d \<and>
            day_cost (final out) d \<le> day_cost (final out) (worst_day out) \<and>
            (\<exists>s. (d, s) \<in> set (daily_summary out) \<and> Cost_sum s = day_cost (final out) d) \<and>
            (exactly_summable (map Cost (day_rows (final out) d)) \<longrightarrow>
               day_cost (final out) d = sum_list (map Cost (day_rows (final out) d)))"
    by (rule ballI)
  with b w show ?thesis by (intro conjI)
qed

text \<open>
  In the sample run the first day holds the only two non-zero hours, costing 0.27
  and 0.405; its costs are exactly summable and its summed cost is 0.675.
\<close>

theorem best_and_worst_day_witness:
  "\<exists>out. run_forecast demo [''Fridge'', ''TV''] 3 3 19259 = Inr out \<and>
     (19259::int) \<in> {19259 ..< 19259 + int 3} \<and>
     exactly_summable (map Cost (day_rows (final out) 19259)) \<and>
     day_cost (final out) 19259 = sum_list (map Cost (day_rows (final out) 19259)) \<and>
     day_cost (final out) 19259 = 3039929748475085 / 4503599627370496 \<and>
     day_cost (final out) (best_day out) \<le> day_cost (final out) 19259 \<and>
     day_cost (final out) 19259 \<le> day_cost (final out) (worst_day out)"
proof -
  from demo_run obtain out where out: "run_forecast demo [''Fridge'', ''TV''] 3 3 19259 = Inr out"
    by blast
  have d: "(19259::int) \<in> {19259 ..< 19259 + int 3}" by simp
  note c = best_and_worst_day[OF out, THEN conjunct2, THEN conjunct2, THEN bspec, OF d]
  note ex = demo_first_day(1)[OF out]
  have eq: "day_cost (final out) 19259 = sum_list (map Cost (day_rows (final out) 19259))"
    using c[THEN conjunct2, THEN conjunct2, THEN conjunct2] ex by (rule mp)
  have val: "day_cost (final out) 19259 = 3039929748475085 / 4503599627370496"
    unfolding eq by (rule demo_first_day(2)[OF out])
  show ?thesis
    by (intro exI[of _ out] conjI out d ex eq val c[THEN conjunct1]
        c[THEN conjunct2, THEN conjunct1])
qed

lemma top_appliances_max:
  assumes "run_forecast m sel days duration start_date = Inr out"
  shows "(\<exists>s. (top_cost_appliance out, s) \<in> set (summary out) \<and>
              (\<forall>x \<in> set (summary out). Cost_sum (snd x) \<le> Cost_sum s)) \<and>
         (\<exists>s. (top_co2_appliance out, s) \<in> set (summary out) \<and>
              (\<forall>x \<in> set (summary out). CO2_sum (snd x) \<le> CO2_sum s))"
proof -
  from run_forecast_Inr[OF assms] have
    c: "idxmax (column Cost_sum (summary out)) = Inr (top_cost_appliance out)" and
    z: "idxmax (column CO2_sum (summary out)) = Inr (top_co2_appliance out)" by blast+
  show ?thesis
    by (intro conjI idxmax_column[OF c] idxmax_column[OF z])
qed

section \<open>The top contributors\<close>

lemma demo_run_rows:
  assumes "run_forecast demo [''Fridge'', ''TV''] 3 3 19259 = Inr out"
  shows "appliance_rows (final out) ''Fridge'' =
           device_frame demo 3 (date_range 19259 72) ''Fridge'' 0"
    and "appliance_rows (final out) ''TV'' =
           device_frame demo 3 (date_range 19259 72) ''TV'' 1"
proof -
  have d: "distinct [''Fridge'', ''TV'']" by simp
  have ix: "int (the (index_of ''Fridge'' (le_classes demo))) = 0"
    "int (the (index_of ''TV'' (le_classes demo))) = 1"
    by (simp_all add: demo_def)
  have "appliance_rows (final out) ''Fridge'' =
      device_frame demo 3 (date_range 19259 (24 * 3)) ''Fridge''
        (int (the (index_of ''Fridge'' (le_classes demo))))"
    unfolding run_final(1)[OF assms] by (rule appliance_rows_frame[OF d]) simp
  then show "appliance_rows (final out) ''Fridge'' =
           device_frame demo 3 (date_range 19259 72) ''Fridge'' 0"
    unfolding ix by simp
  have "appliance_rows (final out) ''TV'' =
      device_frame demo 3 (date_range 19259 (24 * 3)) ''TV''
        (int (the (index_of ''TV'' (le_classes demo))))"
    unfolding run_final(1)[OF assms] by (rule appliance_rows_frame[OF d]) simp
  then show "appliance_rows (final out) ''TV'' =
           device_frame demo 3 (date_range 19259 72) ''TV'' 1"
    unfolding ix by simp
qed

lemma demo_summary_entry:
  assumes "run_forecast demo [''Fridge'', ''TV''] 3 3 19259 = Inr out"
    and "(a, s) \<in> set (summary out)"
  shows "a = ''Fridge'' \<and> Cost_sum s = 607985949695017 / 2251799813685248 \<and>
           CO2_sum s = 1604407367250739 / 1125899906842624 \<or>
         a = ''TV'' \<and> Cost_sum s = 1823957849085051 / 4503599627370496 \<and>
           CO2_sum s = 5775866522102661 / 4503599627370496"
proof -
  from assms(2) have a: "a \<in> set [''Fridge'', ''TV'']"
    and s: "s = \<lparr>Energy_sum = group_sum (map Energy_kWh (appliance_rows (final out) a)),
                CO2_sum = group_sum (map CO2_kg (appliance_rows (final out) a)),
                Cost_sum = group_sum (map Cost (appliance_rows (final out) a))\<rparr>"
    unfolding summary_entry[OF assms(1)] by simp_all
  from a have "a = ''Fridge'' \<or> a = ''TV''" by simp
  then show ?thesis
  proof
    assume "a = ''Fridge''"
    then show ?thesis
      using s by (simp add: demo_run_rows(1)[OF assms(1)] demo_fridge_sums)
  next
    assume "a = ''TV''"
    then show ?thesis
      using s by (simp add: demo_run_rows(2)[OF assms(1)] demo_tv_sums)
  qed
qed

lemma demo_summary_has:
  assumes "run_forecast demo [''Fridge'', ''TV''] 3 3 19259 = Inr out"
  shows "\<exists>s. (''Fridge'', s) \<in> set (summary out)" and "\<exists>s. (''TV'', s) \<in> set (summary out)"
  unfolding summary_entry[OF assms] by simp_all

lemma demo_tops:
  assumes "run_forecast demo [''Fridge'', ''TV''] 3 3 19259 = Inr out"
  shows "top_cost_appliance out = ''TV''" and "top_co2_appliance out = ''Fridge''"
proof -
  from demo_summary_has[OF assms] obtain sf st where
    sf: "(''Fridge'', sf) \<in> set (summary out)" and st: "(''TV'', st) \<in> set (summary out)"
    by blast
  from demo_summary_entry[OF assms sf] have
    f: "Cost_sum sf = 607985949695017 / 2251799813685248"
       "CO2_sum sf = 1604407367250739 / 1125899906842624" by simp_all
  from demo_summary_entry[OF assms st] have
    t: "Cost_sum st = 1823957849085051 / 4503599627370496"
       "CO2_sum st = 5775866522102661 / 4503599627370496" by simp_all
  from top_appliances_max[OF assms] obtain sc sz where
    c: "(top_cost_appliance out, sc) \<in> set (summary out)"
       "\<forall>x \<in> set (summary out). Cost_sum (snd x) \<le> Cost_sum sc" and
    z: "(top_co2_appliance out, sz) \<in> set (summary out)"
       "\<forall>x \<in> set (summary out). CO2_sum (snd x) \<le> CO2_sum sz"
    by blast
  have "Cost_sum (snd (''TV'', st)) \<le> Cost_sum sc" using c(2) st by (rule bspec)
  then have "1823957849085051 / 4503599627370496 \<le> Cost_sum sc" by (simp add: t)
  with demo_summary_entry[OF assms c(1)] show "top_cost_appliance out = ''TV''"
    by auto
  have "CO2_sum (snd (''Fridge'', sf)) \<le> CO2_sum sz" using z(2) sf by (rule bspec)
  then have "1604407367250739 / 1125899906842624 \<le> CO2_sum sz" by (simp add: f)
  with demo_summary_entry[OF assms z(1)] show "top_co2_appliance out = ''Fridge''"
    by auto
qed

lemma single_run_tops:
  assumes "run_forecast m [a] days duration start_date = Inr out"
  shows "top_cost_appliance out = a" and "top_co2_appliance out = a"
proof -
  from top_appliances_max[OF assms] obtain sc sz where
    "(top_cost_appliance out, sc) \<in> set (summary out)"
    "(top_co2_appliance out, sz) \<in> set (summary out)" by blast
  then show "top_cost_appliance out = a" and "top_co2_appliance out = a"
    unfolding summary_entry[OF assms] by simp_all
qed

text \<open>
  Claim C8. The appliance reported as biggest cost driver has a largest total cost
  among the rows of the summary, and the one reported as highest carbon impact has a
  largest total of emissions; the two are found separately: there is a run that
  reports the same appliance for both, and a run that reports two different ones.
\<close>

theorem top_contributors:
  "(run_forecast m sel days duration start_date = Inr out \<longrightarrow>
      (\<exists>s. (top_cost_appliance out, s) \<in> set (summary out) \<and>
           (\<forall>x \<in> set (summary out). Cost_sum (snd x) \<le> Cost_sum s)) \<and>
      (\<exists>s. (top_co2_appliance out, s) \<in> set (summary out) \<and>
           (\<forall>x \<in> set (summary out). CO2_sum (snd x) \<le> CO2_sum s))) \<and>
   (\<exists>out'. run_forecast demo [''Fridge''] 3 3 19259 = Inr out' \<and>
      top_cost_appliance out' = top_co2_appliance out') \<and>
   (\<exists>out'. run_forecast demo [''Fridge'', ''TV''] 3 3 19259 = Inr out' \<and>
      top_cost_appliance out' \<noteq> top_co2_appliance out')"
proof (intro conjI impI)
  assume "run_forecast m sel days duration start_date = Inr out"
  from top_appliances_max[OF this]
  show "\<exists>s. (top_cost_appliance out, s) \<in> set (summary out) \<and>
           (\<forall>x \<in> set (summary out). Cost_sum (snd x) \<le> Cost_sum s)"
    and "\<exists>s. (top_co2_appliance out, s) \<in> set (summary out) \<and>
           (\<forall>x \<in> set (summary out). CO2_sum (snd x) \<le> CO2_sum s)"
    by (rule conjunct1, rule conjunct2)
next
  have "\<exists>out'. run_forecast demo [''Fridge''] 3 3 19259 = Inr out'"
    by (rule run_forecast_total) (simp_all add: demo_def)
  then obtain o1 where o1: "run_forecast demo [''Fridge''] 3 3 19259 = Inr o1" ..
  show "\<exists>out'. run_forecast demo [''Fridge''] 3 3 19259 = Inr out' \<and>
      top_cost_appliance out' = top_co2_appliance out'"
    by (intro exI[of _ o1] conjI o1) (simp add: single_run_tops[OF o1])
next
  from demo_run obtain o2 where o2: "run_forecast demo [''Fridge'', ''TV''] 3 3 19259 = Inr o2" ..
  show "\<exists>out'. run_forecast demo [''Fridge'', ''TV''] 3 3 19259 = Inr out' \<and>
      top_cost_appliance out' \<noteq> top_co2_appliance out'"
    by (intro exI[of _ o2] conjI o2) (simp add: demo_tops[OF o2])
qed

theorem top_contributors_witness:
  "\<exists>out s x. run_forecast demo [''Fridge'', ''TV''] 3 3 19259 = Inr out \<and>
     (top_cost_appliance out, s) \<in> set (summary out) \<and>
     x \<in> set (summary out) \<and> fst x = ''Fridge'' \<and> Cost_sum (snd x) \<le> Cost_sum s"
proof -
  from demo_run obtain out where out: "run_forecast demo [''Fridge'', ''TV''] 3 3 19259 = Inr out" ..
  from top_contributors[of demo "[''Fridge'', ''TV'']" 3 3 19259 out, THEN conjunct1, THEN mp,
      OF out, THEN conjunct1]
  obtain s where s: "(top_cost_appliance out, s) \<in> set (summary out)"
    and mx: "\<forall>x \<in> set (summary out). Cost_sum (snd x) \<le> Cost_sum s" by blast
  from demo_summary_has(1)[OF out] obtain sf where sf: "(''Fridge'', sf) \<in> set (summary out)" ..
  have le: "Cost_sum (snd (''Fridge'', sf)) \<le> Cost_sum s" using mx sf by (rule bspec)
  show ?thesis
    by (intro exI[of _ out] exI[of _ s] exI[of _ "(''Fridge'', sf)"] conjI out s sf le) simp
qed

end
